theory Spec2Isabelle
  imports Main "HOL-Library.Word"
begin

section \<open>The token scanner of the xbasic compiler (db\_scan.c)\<close>

subsection \<open>Tokens and errors\<close>

text \<open>
  Modelled from the spec: the token enum lives in db\_compiler.h, which is not among the
  sources at hand. In C a token is an \<open>int\<close>: either one of the enum constants or, for
  a single-character token, the character's own code. The datatype keeps the enum
  constants as constructors and the second form as \<open>T_CHAR\<close>, which carries the byte
  read; it takes the enum constants to be distinct from every value a character reads as.
\<close>

datatype token =
    T_NONE
  | T_REM | T_OPTION | T_INCLUDE | T_DEF | T_DIM | T_AS | T_IN | T_LET | T_IF | T_THEN
  | T_ELSE | T_SELECT | T_CASE | T_END | T_FOR | T_TO | T_STEP | T_NEXT | T_DO | T_WHILE
  | T_UNTIL | T_LOOP | T_GOTO | T_MOD | T_AND | T_OR | T_XOR | T_NOT | T_STOP | T_RETURN
  | T_INPUT | T_PRINT | T_ASM
  | T_ELSE_IF | T_END_DEF | T_END_IF | T_END_SELECT | T_END_ASM
  | T_DO_WHILE | T_DO_UNTIL | T_LOOP_WHILE | T_LOOP_UNTIL
  | T_LE | T_NE | T_GE | T_SHL | T_SHR
  | T_IDENTIFIER | T_NUMBER | T_STRING | T_EOL | T_EOF
  | T_CHAR char

text \<open>
  \<open>ParseError\<close> prints a message and leaves through \<open>longjmp\<close>. Each message of
  db\_scan.c is one constructor; a function that can reach \<open>ParseError\<close> returns the
  error together with the context as it stands at the jump.
\<close>

datatype error =
    InsufficientMemory
  | IdentifierTooLong
  | StringTooLong
  | UnterminatedString
  | ExpectingClosingQuote
  | Expecting token token

subsection \<open>The parse context\<close>

text \<open>
  The input file stack is a chain of \<open>ParseFile\<close> structures linked through
  \<open>next\<close>. A pointer into the chain is \<open>NULL\<close>, the address of the main file
  structure embedded in the context (\<open>MainFile\<close>), or a heap structure made by
  \<open>PushFile\<close>, which carries, in this order, its stream \<open>u.file.fp\<close>, its
  \<open>IncludedFile\<close> record \<open>u.file.file\<close> (the name), its \<open>lineNumber\<close> and its
  \<open>next\<close> pointer. The main structure's \<open>next\<close> field is
  \<open>NULL\<close>: \<open>RewindInput\<close> stores that and nothing else writes the field, so a chain
  ends at \<open>MainFile\<close> or at \<open>NULL\<close>.

  Modelled from the spec: the host's line sources. The main input is a line-fetch and
  rewind pair behind a cookie; the model keeps the lines the host will deliver
  (\<open>mainSource\<close>) and the ones not fetched yet (\<open>mainRest\<close>). An include stream is
  the list of lines \<open>xbGetLine\<close> will still deliver, and \<open>xbOpenFileInPath\<close> is a
  lookup in \<open>fileSystem\<close>. \<open>malloc\<close> answers from \<open>mallocOracle\<close>: each call takes
  the head, \<open>True\<close> for an allocation that succeeds; an empty oracle refuses.
\<close>

datatype ParseFile =
    NULL
  | MainFile
  | HeapFile "string list" string nat ParseFile

record ParseContext =
  fileSystem :: "string \<Rightarrow> string list option"
  mallocOracle :: "bool list"
  mainSource :: "string list"
  mainRest :: "string list"
  mainLineNumber :: nat
  currentFile :: ParseFile
  includedFiles :: "string list"
  currentInclude :: "string option"
  lineBuf :: string
  linePtr :: nat
  tokenOffset :: nat
  savedToken :: token
  token :: string
  "value" :: int
  inComment :: bool
  freed :: "ParseFile list"

text \<open>
  \<open>lineBuf\<close> and \<open>token\<close> hold the bytes of the C strings up to, not including, the
  terminating zero; \<open>linePtr\<close> is the offset of the cursor in \<open>lineBuf\<close>.
  \<open>freed\<close> lists the \<open>ParseFile\<close> structures handed to \<open>fclose\<close>/\<open>free\<close>, latest first.
  \<open>includedFiles\<close> is the linked list of \<open>IncludedFile\<close> records, newest first.
\<close>

type_synonym 'a result = "(error \<times> ParseContext) + ('a \<times> ParseContext)"

subsection \<open>Character classes of ctype.h (C locale)\<close>

text \<open>
  The scanner keeps a character in an \<open>int\<close>, read from the line through a plain
  \<open>char\<close> pointer. Plain \<open>char\<close> is taken as signed, as on the hosts the compiler is
  built for: a byte below 0x80 reads as its code, a byte from 0x80 on as its code less 256
  (\<open>char_int\<close>), and the byte 0xFF reads as -1, which is \<open>EOF\<close>. The model keeps the
  byte and writes \<open>None\<close> for \<open>EOF\<close>. The classes below hold for the ASCII characters
  listed and for no other value.
\<close>

definition char_int :: "char \<Rightarrow> int" where
  "char_int ch = (if (of_char ch :: nat) < 128 then of_char ch else of_char ch - 256)"


definition isdigit :: "char \<Rightarrow> bool" where
  "isdigit ch = (ch \<in> set ''0123456789'')"

definition isupper :: "char \<Rightarrow> bool" where
  "isupper ch = (ch \<in> set ''ABCDEFGHIJKLMNOPQRSTUVWXYZ'')"

definition islower :: "char \<Rightarrow> bool" where
  "islower ch = (ch \<in> set ''abcdefghijklmnopqrstuvwxyz'')"

definition isxdigit :: "char \<Rightarrow> bool" where
  "isxdigit ch = (ch \<in> set ''0123456789abcdefABCDEF'')"

text \<open>The blanks: space, horizontal tab, newline, vertical tab, form feed, carriage
  return.\<close>

definition isspace :: "char \<Rightarrow> bool" where
  "isspace ch = (ch \<in> set [CHR 0x20, CHR 0x09, CHR 0x0A, CHR 0x0B, CHR 0x0C, CHR 0x0D])"

definition tolower :: "char \<Rightarrow> char" where
  "tolower ch =
     (case map_of (zip ''ABCDEFGHIJKLMNOPQRSTUVWXYZ'' ''abcdefghijklmnopqrstuvwxyz'') ch of
        Some l \<Rightarrow> l
      | None \<Rightarrow> ch)"

text \<open>\<open>strcasecmp\<close> returns 0 exactly when the two strings are equal up to the case of
  their letters.\<close>

definition strcasecmp_eq :: "string \<Rightarrow> string \<Rightarrow> bool" where
  "strcasecmp_eq s t = (map tolower s = map tolower t)"

text \<open>\<open>IdentifierCharP\<close>: is this an identifier character?\<close>

definition IdentifierCharP :: "char \<Rightarrow> bool" where
  "IdentifierCharP ch = (isupper ch \<or> islower ch \<or> isdigit ch \<or> ch = CHR ''_'')"

subsection \<open>The character reader\<close>

text \<open>
  \<open>XGetC\<close>: the next character of the line, without looking for comments. At the
  terminating zero the cursor stays and the result is \<open>EOF\<close>. The byte 0xFF is read and
  passed, and what is returned for it equals \<open>EOF\<close>. The cursor never passes the
  terminator, so an offset beyond it does not arise; the model answers \<open>EOF\<close> there as
  well.
\<close>

definition XGetC :: "ParseContext \<Rightarrow> char option \<times> ParseContext" where
  "XGetC c =
     (if linePtr c < length (lineBuf c)
      then (if lineBuf c ! linePtr c = CHR 0xFF then None else Some (lineBuf c ! linePtr c),
            c\<lparr>linePtr := linePtr c + 1\<rparr>)
      else (None, c))"

text \<open>
  \<open>UngetC\<close> steps the cursor back. The source does so also after an \<open>EOF\<close>, which
  did not advance it. At offset 0 the C pointer would leave the buffer; the model stays
  at 0 (every caller has read the line's newline or more before).
\<close>

definition UngetC :: "ParseContext \<Rightarrow> ParseContext" where
  "UngetC c = c\<lparr>linePtr := linePtr c - 1\<rparr>"

definition remaining :: "ParseContext \<Rightarrow> nat" where
  "remaining c = length (lineBuf c) - linePtr c"

text \<open>\<open>SkipComment\<close>: skip characters up to the end of a block comment.\<close>

function SkipComment_loop :: "char \<Rightarrow> ParseContext \<Rightarrow> bool \<times> ParseContext" where
  "SkipComment_loop lastch c =
     (case XGetC c of
        (None, c') \<Rightarrow> (False, c')
      | (Some ch, c') \<Rightarrow>
          if lastch = CHR ''*'' \<and> ch = CHR ''/'' then (True, c')
          else SkipComment_loop ch c')"
  by pat_completeness auto
termination
  by (relation "measure (\<lambda>(lastch, c). remaining c)")
     (auto simp: XGetC_def remaining_def split: if_splits)

definition SkipComment :: "ParseContext \<Rightarrow> bool \<times> ParseContext" where
  "SkipComment c = SkipComment_loop (CHR 0x00) c"

text \<open>The inner loop of the \<open>//\<close> case: read to the end of the line.\<close>

function SkipToEOF :: "ParseContext \<Rightarrow> ParseContext" where
  "SkipToEOF c =
     (case XGetC c of
        (None, c') \<Rightarrow> c'
      | (Some ch, c') \<Rightarrow> SkipToEOF c')"
  by pat_completeness auto
termination
  by (relation "measure remaining")
     (auto simp: XGetC_def remaining_def split: if_splits)

lemma XGetC_remaining_le: "XGetC c = (r, c') \<Longrightarrow> remaining c' \<le> remaining c"
  by (auto simp: XGetC_def remaining_def split: if_splits)

lemma XGetC_remaining_less: "XGetC c = (Some ch, c') \<Longrightarrow> remaining c' < remaining c"
  by (auto simp: XGetC_def remaining_def split: if_splits)

lemma SkipComment_loop_remaining_le:
  "SkipComment_loop lastch c = (r, c') \<Longrightarrow> remaining c' \<le> remaining c"
proof (induction lastch c arbitrary: r c' rule: SkipComment_loop.induct)
  case (1 lastch c)
  obtain x c1 where x: "XGetC c = (x, c1)" by (cases "XGetC c")
  show ?case
  proof (cases x)
    case None
    with x "1.prems" have "c' = c1"
      by (simp add: SkipComment_loop.simps [of lastch c])
    with x show ?thesis by (simp add: XGetC_remaining_le)
  next
    case (Some ch)
    with x have less: "remaining c1 < remaining c" by (simp add: XGetC_remaining_less)
    show ?thesis
    proof (cases "lastch = CHR ''*'' \<and> ch = CHR ''/''")
      case True
      with x Some "1.prems" have "c' = c1"
        by (simp add: SkipComment_loop.simps [of lastch c])
      with less show ?thesis by simp
    next
      case False
      with x Some "1.prems" have "SkipComment_loop ch c1 = (r, c')"
        by (simp add: SkipComment_loop.simps [of lastch c])
      with "1.IH" [OF x [symmetric] Some False] have "remaining c' \<le> remaining c1" .
      with less show ?thesis by simp
    qed
  qed
qed

lemma SkipToEOF_remaining_le: "remaining (SkipToEOF c) \<le> remaining c"
proof (induction c rule: SkipToEOF.induct)
  case (1 c)
  obtain x c1 where x: "XGetC c = (x, c1)" by (cases "XGetC c")
  show ?case
  proof (cases x)
    case None
    with x have "SkipToEOF c = c1" by (simp add: SkipToEOF.simps [of c])
    with x show ?thesis by (simp add: XGetC_remaining_le)
  next
    case (Some ch)
    with x have "remaining c1 < remaining c" by (simp add: XGetC_remaining_less)
    moreover from "1.IH" [OF x [symmetric] Some]
    have "remaining (SkipToEOF c1) \<le> remaining c1" .
    moreover from x Some have "SkipToEOF c = SkipToEOF c1"
      by (simp add: SkipToEOF.simps [of c])
    ultimately show ?thesis by simp
  qed
qed

text \<open>
  \<open>GetChar\<close>: the next character, with comments left out. The loop below is the
  \<open>for (;;)\<close> of the source; \<open>GetChar\<close> itself first finishes a block comment
  carried over from an earlier line.
\<close>

function GetChar_loop :: "ParseContext \<Rightarrow> char option \<times> ParseContext" where
  "GetChar_loop c =
     (case XGetC c of
        (None, c1) \<Rightarrow> (None, c1)
      | (Some ch, c1) \<Rightarrow>
          if ch = CHR ''/'' then
            (case XGetC c1 of
               (ch2, c2) \<Rightarrow>
                 if ch2 = Some (CHR ''/'') then GetChar_loop (SkipToEOF c2)
                 else if ch2 = Some (CHR ''*'') then
                   (case SkipComment c2 of
                      (False, c3) \<Rightarrow> (None, c3\<lparr>inComment := True\<rparr>)
                    | (True, c3) \<Rightarrow> GetChar_loop c3)
                 else (Some (CHR ''/''), UngetC c2))
          else (Some ch, c1))"
  by pat_completeness auto
termination
proof (relation "measure remaining")
  show "wf (measure remaining)" by simp
next
  fix c :: ParseContext and x c1 ch x' ch2 c2
  assume a: "(x, c1) = XGetC c" "x = Some ch" "(ch2, c2) = XGetC c1"
  from a have "remaining c1 < remaining c" by (simp add: XGetC_remaining_less [of c ch c1])
  moreover from a have "remaining c2 \<le> remaining c1" by (simp add: XGetC_remaining_le [of c1 ch2 c2])
  moreover have "remaining (SkipToEOF c2) \<le> remaining c2" by (rule SkipToEOF_remaining_le)
  ultimately show "(SkipToEOF c2, c) \<in> measure remaining" by simp
next
  fix c :: ParseContext and x c1 ch x' ch2 c2 b c3
  assume a: "(x, c1) = XGetC c" "x = Some ch" "(ch2, c2) = XGetC c1"
    and b: "(b, c3) = SkipComment c2"
  from a have "remaining c1 < remaining c" by (simp add: XGetC_remaining_less [of c ch c1])
  moreover from a have "remaining c2 \<le> remaining c1" by (simp add: XGetC_remaining_le [of c1 ch2 c2])
  moreover from b have "remaining c3 \<le> remaining c2"
    by (simp add: SkipComment_def SkipComment_loop_remaining_le [of "CHR 0x00" c2 b c3])
  ultimately show "(c3, c) \<in> measure remaining" by simp
qed

definition GetChar :: "ParseContext \<Rightarrow> char option \<times> ParseContext" where
  "GetChar c =
     (if inComment c then
        (case SkipComment c of
           (False, c1) \<Rightarrow> (None, c1)
         | (True, c1) \<Rightarrow> GetChar_loop (c1\<lparr>inComment := False\<rparr>))
      else GetChar_loop c)"

lemma GetChar_loop_progress:
  "GetChar_loop c = (Some ch, c') \<Longrightarrow> ch \<noteq> CHR ''/'' \<Longrightarrow> remaining c' < remaining c"
proof (induction c rule: GetChar_loop.induct)
  case (1 c)
  obtain x c1 where x: "XGetC c = (x, c1)" by (cases "XGetC c")
  obtain ch2 c2 where y: "XGetC c1 = (ch2, c2)" by (cases "XGetC c1")
  obtain b c3 where z: "SkipComment c2 = (b, c3)" by (cases "SkipComment c2")
  show ?case
  proof (cases x)
    case None
    with x "1.prems" show ?thesis by (simp add: GetChar_loop.simps [of c])
  next
    case (Some a)
    with x have l1: "remaining c1 < remaining c" by (simp add: XGetC_remaining_less)
    from y have l2: "remaining c2 \<le> remaining c1" by (rule XGetC_remaining_le)
    show ?thesis
    proof (cases "a = CHR ''/''")
      case False
      with x Some "1.prems" l1 show ?thesis by (simp add: GetChar_loop.simps [of c])
    next
      case True
      note sl = True
      show ?thesis
      proof (cases "ch2 = Some (CHR ''/'')")
        case True
        with x y Some sl "1.prems" have "GetChar_loop (SkipToEOF c2) = (Some ch, c')"
          by (simp add: GetChar_loop.simps [of c])
        from "1.IH"(1) [OF x [symmetric] Some sl y [symmetric] True this "1.prems"(2)]
        have "remaining c' < remaining (SkipToEOF c2)" .
        with SkipToEOF_remaining_le [of c2] l1 l2 show ?thesis by simp
      next
        case False
        note ns = False
        show ?thesis
        proof (cases "ch2 = Some (CHR ''*'')")
          case True
          from z have l3: "remaining c3 \<le> remaining c2"
            by (simp add: SkipComment_def SkipComment_loop_remaining_le)
          show ?thesis
          proof (cases b)
            case False
            with x y z Some sl ns True "1.prems" show ?thesis
              by (simp add: GetChar_loop.simps [of c])
          next
            case True
            note bt = True
            then have bT: "b = True" by simp
            with x y z Some sl ns \<open>ch2 = Some (CHR ''*'')\<close> "1.prems"
            have "GetChar_loop c3 = (Some ch, c')"
              by (simp add: GetChar_loop.simps [of c])
            from "1.IH"(2) [OF x [symmetric] Some sl y [symmetric] ns \<open>ch2 = Some (CHR ''*'')\<close> z [symmetric] bT this "1.prems"(2)]
            have "remaining c' < remaining c3" .
            with l1 l2 l3 show ?thesis by simp
          qed
        next
          case False
          with x y Some sl ns "1.prems" show ?thesis
            by (simp add: GetChar_loop.simps [of c])
        qed
      qed
    qed
  qed
qed

declare SkipComment_loop.simps [simp del]

declare SkipToEOF.simps [simp del]

declare GetChar_loop.simps [simp del]

lemma GetChar_progress:
  assumes "GetChar c = (Some ch, c')" and "ch \<noteq> CHR ''/''"
  shows "remaining c' < remaining c"
proof (cases "inComment c")
  case False
  with assms show ?thesis by (simp add: GetChar_def GetChar_loop_progress)
next
  case True
  obtain b c1 where z: "SkipComment c = (b, c1)" by (cases "SkipComment c")
  then have le: "remaining c1 \<le> remaining c"
    by (simp add: SkipComment_def SkipComment_loop_remaining_le)
  from True z assms(1) have b by (cases b) (simp_all add: GetChar_def)
  with True z assms(1) have "GetChar_loop (c1\<lparr>inComment := False\<rparr>) = (Some ch, c')"
    by (simp add: GetChar_def)
  from GetChar_loop_progress [OF this assms(2)]
  have "remaining c' < remaining (c1\<lparr>inComment := False\<rparr>)" .
  with le show ?thesis by (simp add: remaining_def)
qed

lemma isspace_not_slash: "isspace ch \<Longrightarrow> ch \<noteq> CHR ''/''"
  by (auto simp: isspace_def)

lemma isdigit_not_slash: "isdigit ch \<Longrightarrow> ch \<noteq> CHR ''/''"
  by (auto simp: isdigit_def)

lemma isxdigit_not_slash: "isxdigit ch \<Longrightarrow> ch \<noteq> CHR ''/''"
  by (auto simp: isxdigit_def isdigit_def)

lemma IdentifierCharP_not_slash: "IdentifierCharP ch \<Longrightarrow> ch \<noteq> CHR ''/''"
  by (auto simp: IdentifierCharP_def isupper_def islower_def isdigit_def)

text \<open>\<open>SkipSpaces\<close>: skip leading spaces and return the next non-blank character.\<close>

function SkipSpaces :: "ParseContext \<Rightarrow> char option \<times> ParseContext" where
  "SkipSpaces c =
     (case GetChar c of
        (None, c1) \<Rightarrow> (None, c1)
      | (Some ch, c1) \<Rightarrow>
          if \<not> isspace ch then (Some ch, c1)
          else SkipSpaces c1)"
  by pat_completeness auto
termination
proof (relation "measure remaining")
  show "wf (measure remaining)" by simp
next
  fix c :: ParseContext and x c1 ch
  assume "(x, c1) = GetChar c" "x = Some ch" "\<not> \<not> isspace ch"
  then have "GetChar c = (Some ch, c1)" "ch \<noteq> CHR ''/''"
    by (simp_all add: isspace_not_slash)
  then show "(c1, c) \<in> measure remaining" by (simp add: GetChar_progress)
qed

declare SkipSpaces.simps [simp del]

subsection \<open>The keyword table\<close>

definition ktab :: "(string \<times> token) list" where
  "ktab =
     [(''REM'', T_REM), (''OPTION'', T_OPTION), (''INCLUDE'', T_INCLUDE), (''DEF'', T_DEF),
      (''DIM'', T_DIM), (''AS'', T_AS), (''IN'', T_IN), (''LET'', T_LET), (''IF'', T_IF),
      (''THEN'', T_THEN), (''ELSE'', T_ELSE), (''SELECT'', T_SELECT), (''CASE'', T_CASE),
      (''END'', T_END), (''FOR'', T_FOR), (''TO'', T_TO), (''STEP'', T_STEP),
      (''NEXT'', T_NEXT), (''DO'', T_DO), (''WHILE'', T_WHILE), (''UNTIL'', T_UNTIL),
      (''LOOP'', T_LOOP), (''GOTO'', T_GOTO), (''MOD'', T_MOD), (''AND'', T_AND),
      (''OR'', T_OR), (''XOR'', T_XOR), (''NOT'', T_NOT), (''STOP'', T_STOP),
      (''RETURN'', T_RETURN), (''INPUT'', T_INPUT), (''PRINT'', T_PRINT), (''ASM'', T_ASM)]"

text \<open>The search of \<open>IdentifierToken\<close> through the table: the first entry that matches
  without regard to case, \<open>T_IDENTIFIER\<close> when none does.\<close>

fun keyword_search :: "(string \<times> token) list \<Rightarrow> string \<Rightarrow> token" where
  "keyword_search [] s = T_IDENTIFIER"
| "keyword_search ((keyword, tkn) # rest) s =
     (if strcasecmp_eq keyword s then tkn else keyword_search rest s)"

subsection \<open>Identifiers\<close>

text \<open>
  \<open>MAXTOKEN\<close> is a constant of db\_compiler.h, which is not among the sources; the
  functions that use it take it as their first argument.

  The loop of \<open>IdentifierToken\<close> stores the characters through \<open>p\<close> and terminates the
  buffer after the loop; the model collects them in \<open>p\<close> and assigns \<open>token\<close> then.
  On the exit through \<open>ParseError\<close> inside the loop the buffer has no terminator yet;
  the model's \<open>token\<close> then holds the characters stored so far.
\<close>

function IdentifierToken_loop :: "nat \<Rightarrow> nat \<Rightarrow> string \<Rightarrow> ParseContext \<Rightarrow> string result" where
  "IdentifierToken_loop MAXTOKEN len p c =
     (case GetChar c of
        (None, c1) \<Rightarrow> Inr (p, c1)
      | (Some ch, c1) \<Rightarrow>
          if IdentifierCharP ch then
            (if len + 1 > MAXTOKEN then Inl (IdentifierTooLong, c1\<lparr>token := p\<rparr>)
             else IdentifierToken_loop MAXTOKEN (len + 1) (p @ [ch]) c1)
          else Inr (p, c1))"
  by pat_completeness auto
termination
proof (relation "measure (\<lambda>(MAXTOKEN, len, p, c). remaining c)")
  show "wf (measure (\<lambda>(MAXTOKEN :: nat, len :: nat, p :: string, c). remaining c))" by simp
next
  fix MAXTOKEN len :: nat and p :: string and c :: ParseContext and x c1 ch
  assume "(x, c1) = GetChar c" "x = Some ch" "IdentifierCharP ch"
  then have "GetChar c = (Some ch, c1)" "ch \<noteq> CHR ''/''"
    by (simp_all add: IdentifierCharP_not_slash)
  then show "((MAXTOKEN, len + 1, p @ [ch], c1), (MAXTOKEN, len, p, c))
      \<in> measure (\<lambda>(MAXTOKEN, len, p, c). remaining c)"
    by (simp add: GetChar_progress)
qed

declare IdentifierToken_loop.simps [simp del]

definition IdentifierToken :: "nat \<Rightarrow> ParseContext \<Rightarrow> char \<Rightarrow> token result" where
  "IdentifierToken MAXTOKEN c ch =
     (case IdentifierToken_loop MAXTOKEN 1 [ch] c of
        Inl e \<Rightarrow> Inl e
      | Inr (p, c1) \<Rightarrow>
          let c2 = (UngetC c1)\<lparr>token := p\<rparr>
          in Inr (keyword_search ktab (token c2), c2))"

subsection \<open>Numbers\<close>

text \<open>
  \<open>atol\<close> and \<open>strtoul\<close> on the spellings collected below, which hold digits of the
  base only (no blanks, sign or prefix): the value of the longest run of leading digits.
  A value beyond the library's range limit is replaced by the limit: \<open>LONG_MAX\<close> for
  \<open>atol\<close>, \<open>ULONG_MAX\<close> for \<open>strtoul\<close>, with \<open>long\<close> taken as 64 bits wide.
  \<open>digit_value\<close> is the value of a character as a digit, 36 when it is none.

  Modelled from the spec: \<open>VMVALUE\<close> is declared outside the sources; it is taken as
  a signed 32-bit integer, out-of-range values wrapping in the conversion.
\<close>

definition digit_value :: "char \<Rightarrow> nat" where
  "digit_value ch =
     (case map_of
         (zip ''0123456789abcdefghijklmnopqrstuvwxyz''
            [0, 1, 2, 3, 4, 5, 6, 7, 8, 9, 10, 11, 12, 13, 14, 15, 16, 17, 18, 19, 20, 21,
             22, 23, 24, 25, 26, 27, 28, 29, 30, 31, 32, 33, 34, 35])
         (tolower ch) of
        Some v \<Rightarrow> v
      | None \<Rightarrow> 36)"

fun strtoul_digits :: "nat \<Rightarrow> nat \<Rightarrow> string \<Rightarrow> nat" where
  "strtoul_digits base acc [] = acc"
| "strtoul_digits base acc (ch # s) =
     (if digit_value ch < base then strtoul_digits base (acc * base + digit_value ch) s
      else acc)"

definition LONG_MAX :: int where
  "LONG_MAX = 2 ^ 63 - 1"

definition ULONG_MAX :: int where
  "ULONG_MAX = 2 ^ 64 - 1"

definition strtoul :: "string \<Rightarrow> nat \<Rightarrow> int" where
  "strtoul s base = min (int (strtoul_digits base 0 s)) ULONG_MAX"

definition atol :: "string \<Rightarrow> int" where
  "atol s = min (int (strtoul_digits 10 0 s)) LONG_MAX"

definition VMVALUE_of :: "int \<Rightarrow> int" where
  "VMVALUE_of x = sint (word_of_int x :: 32 word)"

function NumberToken_loop :: "string \<Rightarrow> ParseContext \<Rightarrow> string \<times> ParseContext" where
  "NumberToken_loop p c =
     (case GetChar c of
        (None, c1) \<Rightarrow> (p, c1)
      | (Some ch, c1) \<Rightarrow>
          if isdigit ch then NumberToken_loop (p @ [ch]) c1
          else if ch \<noteq> CHR ''_'' then (p, c1)
          else NumberToken_loop p c1)"
  by pat_completeness auto
termination
proof (relation "measure (\<lambda>(p, c). remaining c)")
  show "wf (measure (\<lambda>(p :: string, c). remaining c))" by simp
next
  fix p :: string and c :: ParseContext and x c1 ch
  assume "(x, c1) = GetChar c" "x = Some ch" "isdigit ch"
  then have "GetChar c = (Some ch, c1)" "ch \<noteq> CHR ''/''"
    by (simp_all add: isdigit_not_slash)
  then show "((p @ [ch], c1), (p, c)) \<in> measure (\<lambda>(p, c). remaining c)"
    by (simp add: GetChar_progress)
next
  fix p :: string and c :: ParseContext and x c1 ch
  assume "(x, c1) = GetChar c" "x = Some ch" "\<not> ch \<noteq> CHR ''_''"
  then have "GetChar c = (Some ch, c1)" "ch \<noteq> CHR ''/''" by simp_all
  then show "((p, c1), (p, c)) \<in> measure (\<lambda>(p, c). remaining c)"
    by (simp add: GetChar_progress)
qed

declare NumberToken_loop.simps [simp del]

definition NumberToken :: "ParseContext \<Rightarrow> char \<Rightarrow> token \<times> ParseContext" where
  "NumberToken c ch =
     (case NumberToken_loop [ch] c of
        (p, c1) \<Rightarrow>
          let c2 = (UngetC c1)\<lparr>token := p\<rparr>
          in (T_NUMBER, c2\<lparr>value := VMVALUE_of (atol (token c2))\<rparr>))"

function HexNumberToken_loop :: "string \<Rightarrow> ParseContext \<Rightarrow> string \<times> ParseContext" where
  "HexNumberToken_loop p c =
     (case GetChar c of
        (None, c1) \<Rightarrow> (p, c1)
      | (Some ch, c1) \<Rightarrow>
          if isxdigit ch then HexNumberToken_loop (p @ [ch]) c1
          else if ch \<noteq> CHR ''_'' then (p, c1)
          else HexNumberToken_loop p c1)"
  by pat_completeness auto
termination
proof (relation "measure (\<lambda>(p, c). remaining c)")
  show "wf (measure (\<lambda>(p :: string, c). remaining c))" by simp
next
  fix p :: string and c :: ParseContext and x c1 ch
  assume "(x, c1) = GetChar c" "x = Some ch" "isxdigit ch"
  then have "GetChar c = (Some ch, c1)" "ch \<noteq> CHR ''/''"
    by (simp_all add: isxdigit_not_slash)
  then show "((p @ [ch], c1), (p, c)) \<in> measure (\<lambda>(p, c). remaining c)"
    by (simp add: GetChar_progress)
next
  fix p :: string and c :: ParseContext and x c1 ch
  assume "(x, c1) = GetChar c" "x = Some ch" "\<not> ch \<noteq> CHR ''_''"
  then have "GetChar c = (Some ch, c1)" "ch \<noteq> CHR ''/''" by simp_all
  then show "((p, c1), (p, c)) \<in> measure (\<lambda>(p, c). remaining c)"
    by (simp add: GetChar_progress)
qed

declare HexNumberToken_loop.simps [simp del]

definition HexNumberToken :: "ParseContext \<Rightarrow> token \<times> ParseContext" where
  "HexNumberToken c =
     (case HexNumberToken_loop [] c of
        (p, c1) \<Rightarrow>
          let c2 = (UngetC c1)\<lparr>token := p\<rparr>
          in (T_NUMBER, c2\<lparr>value := VMVALUE_of (strtoul (token c2) 16)\<rparr>))"

function BinaryNumberToken_loop :: "string \<Rightarrow> ParseContext \<Rightarrow> string \<times> ParseContext" where
  "BinaryNumberToken_loop p c =
     (case GetChar c of
        (None, c1) \<Rightarrow> (p, c1)
      | (Some ch, c1) \<Rightarrow>
          if ch = CHR ''0'' \<or> ch = CHR ''1'' then BinaryNumberToken_loop (p @ [ch]) c1
          else if ch \<noteq> CHR ''_'' then (p, c1)
          else BinaryNumberToken_loop p c1)"
  by pat_completeness auto
termination
proof (relation "measure (\<lambda>(p, c). remaining c)")
  show "wf (measure (\<lambda>(p :: string, c). remaining c))" by simp
next
  fix p :: string and c :: ParseContext and x c1 ch
  assume "(x, c1) = GetChar c" "x = Some ch" "ch = CHR ''0'' \<or> ch = CHR ''1''"
  then have "GetChar c = (Some ch, c1)" "ch \<noteq> CHR ''/''" by auto
  then show "((p @ [ch], c1), (p, c)) \<in> measure (\<lambda>(p, c). remaining c)"
    by (simp add: GetChar_progress)
next
  fix p :: string and c :: ParseContext and x c1 ch
  assume "(x, c1) = GetChar c" "x = Some ch" "\<not> ch \<noteq> CHR ''_''"
  then have "GetChar c = (Some ch, c1)" "ch \<noteq> CHR ''/''" by simp_all
  then show "((p, c1), (p, c)) \<in> measure (\<lambda>(p, c). remaining c)"
    by (simp add: GetChar_progress)
qed

declare BinaryNumberToken_loop.simps [simp del]

definition BinaryNumberToken :: "ParseContext \<Rightarrow> token \<times> ParseContext" where
  "BinaryNumberToken c =
     (case BinaryNumberToken_loop [] c of
        (p, c1) \<Rightarrow>
          let c2 = (UngetC c1)\<lparr>token := p\<rparr>
          in (T_NUMBER, c2\<lparr>value := VMVALUE_of (strtoul (token c2) 2)\<rparr>))"

subsection \<open>Strings and character constants\<close>

text \<open>\<open>LiteralChar\<close>: get a character from a literal string.\<close>

definition LiteralChar :: "ParseContext \<Rightarrow> char \<times> ParseContext" where
  "LiteralChar c =
     (case XGetC c of
        (Some ch, c1) \<Rightarrow>
          if ch = CHR ''n'' then (CHR 0x0A, c1)
          else if ch = CHR ''r'' then (CHR 0x0D, c1)
          else if ch = CHR ''t'' then (CHR 0x09, c1)
          else (ch, c1)
      | (None, c1) \<Rightarrow> (CHR 0x5C, c1))"

lemma LiteralChar_remaining_le: "LiteralChar c = (r, c') \<Longrightarrow> remaining c' \<le> remaining c"
  by (auto simp: LiteralChar_def XGetC_def remaining_def split: if_splits)

text \<open>
  The loop of \<open>StringToken\<close> ends with the character that stopped it (\<open>EOF\<close> or the
  closing quote) and the characters collected.
\<close>

function StringToken_loop ::
  "nat \<Rightarrow> nat \<Rightarrow> string \<Rightarrow> ParseContext \<Rightarrow> (char option \<times> string) result" where
  "StringToken_loop MAXTOKEN len p c =
     (case XGetC c of
        (None, c1) \<Rightarrow> Inr ((None, p), c1)
      | (Some ch, c1) \<Rightarrow>
          if ch = CHR 0x22 then Inr ((Some ch, p), c1)
          else if len + 1 > MAXTOKEN then Inl (StringTooLong, c1\<lparr>token := p\<rparr>)
          else if ch = CHR 0x5C then
            (case LiteralChar c1 of
               (lch, c2) \<Rightarrow> StringToken_loop MAXTOKEN (len + 1) (p @ [lch]) c2)
          else StringToken_loop MAXTOKEN (len + 1) (p @ [ch]) c1)"
  by pat_completeness auto
termination
proof (relation "measure (\<lambda>(MAXTOKEN, len, p, c). remaining c)")
  show "wf (measure (\<lambda>(MAXTOKEN :: nat, len :: nat, p :: string, c). remaining c))" by simp
next
  fix MAXTOKEN len :: nat and p :: string and c :: ParseContext and x c1 ch lch c2
  assume "(x, c1) = XGetC c" "x = Some ch" "(lch, c2) = LiteralChar c1"
  then have "remaining c1 < remaining c" "remaining c2 \<le> remaining c1"
    by (simp_all add: XGetC_remaining_less [of c ch c1] LiteralChar_remaining_le [of c1 lch c2])
  then show "((MAXTOKEN, len + 1, p @ [lch], c2), (MAXTOKEN, len, p, c))
      \<in> measure (\<lambda>(MAXTOKEN, len, p, c). remaining c)"
    by simp
next
  fix MAXTOKEN len :: nat and p :: string and c :: ParseContext and x c1 ch
  assume "(x, c1) = XGetC c" "x = Some ch"
  then have "remaining c1 < remaining c"
    by (simp add: XGetC_remaining_less [of c ch c1])
  then show "((MAXTOKEN, len + 1, p @ [ch], c1), (MAXTOKEN, len, p, c))
      \<in> measure (\<lambda>(MAXTOKEN, len, p, c). remaining c)"
    by simp
qed

declare StringToken_loop.simps [simp del]

definition StringToken :: "nat \<Rightarrow> ParseContext \<Rightarrow> token result" where
  "StringToken MAXTOKEN c =
     (case StringToken_loop MAXTOKEN 0 [] c of
        Inl e \<Rightarrow> Inl e
      | Inr ((ch, p), c1) \<Rightarrow>
          let c2 = c1\<lparr>token := p\<rparr>
          in if ch \<noteq> Some (CHR 0x22) then Inl (UnterminatedString, c2)
             else Inr (T_STRING, c2))"

text \<open>\<open>CharToken\<close>: get a character constant.\<close>

definition CharToken :: "ParseContext \<Rightarrow> token result" where
  "CharToken c =
     (case LiteralChar c of
        (ch, c1) \<Rightarrow>
          (case XGetC c1 of
             (q, c2) \<Rightarrow>
               if q \<noteq> Some (CHR 0x27) then Inl (ExpectingClosingQuote, c2)
               else Inr (T_NUMBER, c2\<lparr>token := [ch], value := char_int ch\<rparr>)))"

subsection \<open>The token recognizer\<close>

text \<open>
  \<open>NextToken\<close>: read the next token. The C \<open>switch\<close> statements are chains of
  conditionals here, in the order of the cases.
\<close>

definition NextToken :: "nat \<Rightarrow> ParseContext \<Rightarrow> token result" where
  "NextToken MAXTOKEN c0 =
     (case SkipSpaces c0 of
        (ch0, c1) \<Rightarrow>
          let c = c1\<lparr>tokenOffset := linePtr c1\<rparr> in
          (case ch0 of
             None \<Rightarrow> Inr (T_EOL, c)
           | Some ch \<Rightarrow>
               if ch = CHR 0x22 then StringToken MAXTOKEN c
               else if ch = CHR 0x27 then CharToken c
               else if ch = CHR ''<'' then
                 (case GetChar c of
                    (ch2, c2) \<Rightarrow>
                      if ch2 = Some (CHR ''='') then Inr (T_LE, c2)
                      else if ch2 = Some (CHR ''>'') then Inr (T_NE, c2)
                      else if ch2 = Some (CHR ''<'') then Inr (T_SHL, c2)
                      else Inr (T_CHAR (CHR ''<''), UngetC c2))
               else if ch = CHR ''>'' then
                 (case GetChar c of
                    (ch2, c2) \<Rightarrow>
                      if ch2 = Some (CHR ''='') then Inr (T_GE, c2)
                      else if ch2 = Some (CHR ''>'') then Inr (T_SHR, c2)
                      else Inr (T_CHAR (CHR ''>''), UngetC c2))
               else if ch = CHR ''0'' then
                 (case GetChar c of
                    (ch2, c2) \<Rightarrow>
                      if ch2 = Some (CHR ''x'') \<or> ch2 = Some (CHR ''X'')
                      then Inr (HexNumberToken c2)
                      else if ch2 = Some (CHR ''b'') \<or> ch2 = Some (CHR ''B'')
                      then Inr (BinaryNumberToken c2)
                      else Inr (NumberToken (UngetC c2) (CHR ''0'')))
               else if isdigit ch then Inr (NumberToken c ch)
               else if IdentifierCharP ch then
                 (case IdentifierToken MAXTOKEN c ch of
                    Inl e \<Rightarrow> Inl e
                  | Inr (tkn, c2) \<Rightarrow>
                      if tkn = T_ELSE then
                        (let savePtr = linePtr c2 in
                         case SkipSpaces c2 of
                           (Some ch3, c3) \<Rightarrow>
                             if IdentifierCharP ch3 then
                               (case IdentifierToken MAXTOKEN c3 ch3 of
                                  Inl e \<Rightarrow> Inl e
                                | Inr (tkn2, c4) \<Rightarrow>
                                    if tkn2 = T_IF then Inr (T_ELSE_IF, c4)
                                    else Inr (tkn, c4\<lparr>linePtr := savePtr\<rparr>))
                             else Inr (tkn, c3\<lparr>linePtr := savePtr\<rparr>)
                         | (None, c3) \<Rightarrow> Inr (tkn, c3\<lparr>linePtr := savePtr\<rparr>))
                      else if tkn = T_END then
                        (let savePtr = linePtr c2 in
                         case SkipSpaces c2 of
                           (Some ch3, c3) \<Rightarrow>
                             if IdentifierCharP ch3 then
                               (case IdentifierToken MAXTOKEN c3 ch3 of
                                  Inl e \<Rightarrow> Inl e
                                | Inr (tkn2, c4) \<Rightarrow>
                                    if tkn2 = T_DEF then Inr (T_END_DEF, c4)
                                    else if tkn2 = T_IF then Inr (T_END_IF, c4)
                                    else if tkn2 = T_SELECT then Inr (T_END_SELECT, c4)
                                    else if tkn2 = T_ASM then Inr (T_END_ASM, c4)
                                    else Inr (tkn, c4\<lparr>linePtr := savePtr\<rparr>))
                             else Inr (tkn, c3\<lparr>linePtr := savePtr\<rparr>)
                         | (None, c3) \<Rightarrow> Inr (tkn, c3\<lparr>linePtr := savePtr\<rparr>))
                      else if tkn = T_DO then
                        (let savePtr = linePtr c2 in
                         case SkipSpaces c2 of
                           (Some ch3, c3) \<Rightarrow>
                             if IdentifierCharP ch3 then
                               (case IdentifierToken MAXTOKEN c3 ch3 of
                                  Inl e \<Rightarrow> Inl e
                                | Inr (tkn2, c4) \<Rightarrow>
                                    if tkn2 = T_WHILE then Inr (T_DO_WHILE, c4)
                                    else if tkn2 = T_UNTIL then Inr (T_DO_UNTIL, c4)
                                    else Inr (tkn, c4\<lparr>linePtr := savePtr\<rparr>))
                             else Inr (tkn, c3\<lparr>linePtr := savePtr\<rparr>)
                         | (None, c3) \<Rightarrow> Inr (tkn, c3\<lparr>linePtr := savePtr\<rparr>))
                      else if tkn = T_LOOP then
                        (let savePtr = linePtr c2 in
                         case SkipSpaces c2 of
                           (Some ch3, c3) \<Rightarrow>
                             if IdentifierCharP ch3 then
                               (case IdentifierToken MAXTOKEN c3 ch3 of
                                  Inl e \<Rightarrow> Inl e
                                | Inr (tkn2, c4) \<Rightarrow>
                                    if tkn2 = T_WHILE then Inr (T_LOOP_WHILE, c4)
                                    else if tkn2 = T_UNTIL then Inr (T_LOOP_UNTIL, c4)
                                    else Inr (tkn, c4\<lparr>linePtr := savePtr\<rparr>))
                             else Inr (tkn, c3\<lparr>linePtr := savePtr\<rparr>)
                         | (None, c3) \<Rightarrow> Inr (tkn, c3\<lparr>linePtr := savePtr\<rparr>))
                      else Inr (tkn, c2))
               else Inr (T_CHAR ch, c)))"

text \<open>\<open>GetToken\<close>: get the next token; \<open>SaveToken\<close>: save a token.\<close>

definition GetToken :: "nat \<Rightarrow> ParseContext \<Rightarrow> token result" where
  "GetToken MAXTOKEN c =
     (if savedToken c \<noteq> T_NONE then Inr (savedToken c, c\<lparr>savedToken := T_NONE\<rparr>)
      else NextToken MAXTOKEN c)"

definition SaveToken :: "ParseContext \<Rightarrow> token \<Rightarrow> ParseContext" where
  "SaveToken c tkn = c\<lparr>savedToken := tkn\<rparr>"

text \<open>\<open>Require\<close>: check for a required token; \<open>FRequire\<close>: fetch a token and check it.\<close>

definition Require :: "ParseContext \<Rightarrow> token \<Rightarrow> token \<Rightarrow> unit result" where
  "Require c tkn requiredToken =
     (if tkn \<noteq> requiredToken then Inl (Expecting requiredToken tkn, c) else Inr ((), c))"

definition FRequire :: "nat \<Rightarrow> ParseContext \<Rightarrow> token \<Rightarrow> unit result" where
  "FRequire MAXTOKEN c requiredToken =
     (case GetToken MAXTOKEN c of
        Inl e \<Rightarrow> Inl e
      | Inr (tkn, c1) \<Rightarrow> Require c1 tkn requiredToken)"

subsection \<open>The input file stack\<close>

text \<open>\<open>RewindInput\<close>: rewind the main input. The store \<open>f->next = NULL\<close> is the
  convention of \<open>ParseFile\<close> that the chain ends at \<open>MainFile\<close>.\<close>

definition RewindInput :: "ParseContext \<Rightarrow> ParseContext" where
  "RewindInput c =
     c\<lparr>mainRest := mainSource c, mainLineNumber := 0, currentFile := MainFile\<rparr>"

definition malloc :: "ParseContext \<Rightarrow> bool \<times> ParseContext" where
  "malloc c =
     (case mallocOracle c of
        [] \<Rightarrow> (False, c)
      | b # bs \<Rightarrow> (b, c\<lparr>mallocOracle := bs\<rparr>))"

text \<open>
  \<open>PushFile\<close>: push a file onto the input file stack. The structure released when the
  file does not open was never on the stack and is not entered in \<open>freed\<close>.
\<close>

definition PushFile :: "ParseContext \<Rightarrow> string \<Rightarrow> bool result" where
  "PushFile c name =
     (if name \<in> set (includedFiles c) then Inr (True, c)
      else
        (case malloc c of
           (False, c1) \<Rightarrow> Inl (InsufficientMemory, c1)
         | (True, c1) \<Rightarrow>
             let c2 = c1\<lparr>includedFiles := name # includedFiles c1\<rparr> in
             (case malloc c2 of
                (False, c3) \<Rightarrow> Inl (InsufficientMemory, c3)
              | (True, c3) \<Rightarrow>
                  (case fileSystem c3 name of
                     None \<Rightarrow> Inr (False, c3)
                   | Some lines \<Rightarrow>
                       Inr (True,
                         c3\<lparr>currentFile := HeapFile lines name 0 (currentFile c3),
                            currentInclude := Some name\<rparr>)))))"




text \<open>
  \<open>GetLine\<close>: get the next input line. A line source delivers a C string: the bytes of
  the line up to a zero byte. It is given the buffer's size less one, which leaves room
  for the newline that \<open>GetLine\<close> may add; the lines are taken to fit. When a source
  has no more lines the buffer is left as it was.
\<close>

definition cstr :: "string \<Rightarrow> string" where
  "cstr s = takeWhile (\<lambda>ch. ch \<noteq> CHR 0x00) s"

fun chain_length :: "ParseFile \<Rightarrow> nat" where
  "chain_length NULL = 0"
| "chain_length MainFile = 1"
| "chain_length (HeapFile fptr name n nxt) = Suc (chain_length nxt)"

text \<open>The part of \<open>GetLine\<close> after the loop: terminate the line, reset the cursor and
  clear the lookahead token. The line counter is advanced by the caller below, in the
  structure that delivered the line.\<close>

definition GetLine_finish :: "ParseContext \<Rightarrow> ParseContext" where
  "GetLine_finish c =
     (let len = length (lineBuf c);
          buf = (if len = 0 \<or> lineBuf c ! (len - 1) \<noteq> CHR 0x0A
                 then lineBuf c @ [CHR 0x0A] else lineBuf c)
      in c\<lparr>lineBuf := buf, linePtr := 0, savedToken := T_NONE\<rparr>)"

function GetLine :: "ParseContext \<Rightarrow> bool \<times> ParseContext" where
  "GetLine c =
     (case currentFile c of
        NULL \<Rightarrow> (False, c)
      | MainFile \<Rightarrow>
          (case mainRest c of
             l # ls \<Rightarrow>
               (True, GetLine_finish
                  (c\<lparr>mainRest := ls, lineBuf := cstr l,
                     mainLineNumber := mainLineNumber c + 1\<rparr>))
           | [] \<Rightarrow> GetLine (c\<lparr>currentFile := NULL, currentInclude := None\<rparr>))
      | HeapFile fptr name n nxt \<Rightarrow>
          (case fptr of
             l # ls \<Rightarrow>
               (True, GetLine_finish
                  (c\<lparr>currentFile := HeapFile ls name (n + 1) nxt, lineBuf := cstr l\<rparr>))
           | [] \<Rightarrow>
               GetLine
                 (c\<lparr>currentFile := nxt,
                    currentInclude :=
                      (case nxt of HeapFile fptr' name' n' nxt' \<Rightarrow> Some name' | _ \<Rightarrow> None),
                    freed := HeapFile fptr name n nxt # freed c\<rparr>)))"
  by pat_completeness auto
termination
  by (relation "measure (\<lambda>c. chain_length (currentFile c))") auto

declare GetLine.simps [simp del]

subsection \<open>Contexts and outcomes for the statements below\<close>

text \<open>
  \<open>new_context\<close> is a context at the start of a pass: the host's files, the answers of
  its allocator and the lines of its main source; the input is rewound, nothing has been
  included and no line has been fetched. \<open>context_on_line\<close> is such a context after
  \<open>GetLine\<close> has fetched the one line of its main source.
\<close>

definition new_context ::
  "(string \<Rightarrow> string list option) \<Rightarrow> bool list \<Rightarrow> string list \<Rightarrow> ParseContext" where
  "new_context fs oracle src =
     RewindInput
       \<lparr>fileSystem = fs, mallocOracle = oracle, mainSource = src, mainRest = [],
        mainLineNumber = 0, currentFile = NULL, includedFiles = [], currentInclude = None,
        lineBuf = [], linePtr = 0, tokenOffset = 0, savedToken = T_NONE, token = [],
        value = 0, inComment = False, freed = []\<rparr>"

definition context_on_line :: "string \<Rightarrow> ParseContext" where
  "context_on_line l = snd (GetLine (new_context (\<lambda>name. None) [] [l]))"

text \<open>The two parts of a result: what was returned or raised, and the context left.\<close>

definition outcome :: "'a result \<Rightarrow> error + 'a" where
  "outcome r = (case r of Inl (e, c) \<Rightarrow> Inl e | Inr (x, c) \<Rightarrow> Inr x)"

definition context_of :: "'a result \<Rightarrow> ParseContext" where
  "context_of r = (case r of Inl (e, c) \<Rightarrow> c | Inr (x, c) \<Rightarrow> c)"


fun chain :: "ParseFile \<Rightarrow> ParseFile list" where
  "chain NULL = []"
| "chain MainFile = [MainFile]"
| "chain (HeapFile fptr name n nxt) = HeapFile fptr name n nxt # chain nxt"




text \<open>
  The merge table as the specification gives it: first keyword, second keyword, compound
  token. It is compared with the four \<open>switch\<close> blocks of \<open>NextToken\<close> below.
\<close>

definition spec_merge_table :: "((token \<times> token) \<times> token) list" where
  "spec_merge_table =
     [((T_ELSE, T_IF), T_ELSE_IF),
      ((T_END, T_DEF), T_END_DEF),
      ((T_END, T_IF), T_END_IF),
      ((T_END, T_SELECT), T_END_SELECT),
      ((T_END, T_ASM), T_END_ASM),
      ((T_DO, T_WHILE), T_DO_WHILE),
      ((T_DO, T_UNTIL), T_DO_UNTIL),
      ((T_LOOP, T_WHILE), T_LOOP_WHILE),
      ((T_LOOP, T_UNTIL), T_LOOP_UNTIL)]"




section \<open>Properties\<close>

subsection \<open>Character constants\<close>




text \<open>
  C1. The claim: the character constant written quote, backslash, \<open>t\<close>, quote yields a
  number token whose value is the tab character (9), and \<open>'x\<close> with no closing quote
  fails with the missing-closing-quote error. The second half holds. The first does not:
  \<open>CharToken\<close> hands the first character after the opening quote to \<open>LiteralChar\<close>
  without looking for a backslash, so the backslash is taken as the character itself, the
  \<open>t\<close> that follows is not a closing quote, and the token is refused with the
  missing-closing-quote error. \<open>StringToken\<close> tests for the backslash before it calls
  \<open>LiteralChar\<close>. The theorem evaluates both inputs, for every value of \<open>MAXTOKEN\<close>.
\<close>

theorem C1_backslash_t_constant_is_refused:
  "outcome (GetToken MAXTOKEN (context_on_line [CHR 0x27, CHR 0x5C, CHR ''t'', CHR 0x27]))
     = Inl ExpectingClosingQuote
   \<and> outcome (GetToken MAXTOKEN (context_on_line [CHR 0x27, CHR ''x'']))
     = Inl ExpectingClosingQuote"
  by code_simp




subsection \<open>The input file stack\<close>

lemma GetLine_finish_newline:
  "lineBuf (GetLine_finish c) \<noteq> [] \<and> last (lineBuf (GetLine_finish c)) = CHR 0x0A"
  by (cases "lineBuf c = []") (auto simp: GetLine_finish_def Let_def last_conv_nth)

lemma GetLine_finish_fields:
  "linePtr (GetLine_finish c) = 0" "savedToken (GetLine_finish c) = T_NONE"
  "currentFile (GetLine_finish c) = currentFile c"
  "mainLineNumber (GetLine_finish c) = mainLineNumber c"
  "inComment (GetLine_finish c) = inComment c"
  "freed (GetLine_finish c) = freed c"
  by (simp_all add: GetLine_finish_def Let_def)


lemma GetLine_inComment: "inComment (snd (GetLine c)) = inComment c"
proof (induction c rule: GetLine.induct)
  case (1 c)
  show ?case
  proof (cases "currentFile c")
    case NULL
    then show ?thesis by (simp add: GetLine.simps [of c])
  next
    case MainFile
    show ?thesis
    proof (cases "mainRest c")
      case Nil
      from "1.IH"(1) [OF MainFile Nil] MainFile Nil show ?thesis
        by (simp add: GetLine.simps [of c])
    next
      case (Cons l ls)
      with MainFile show ?thesis
        by (simp add: GetLine.simps [of c] GetLine_finish_fields)
    qed
  next
    case (HeapFile fptr name n nxt)
    show ?thesis
    proof (cases fptr)
      case Nil
      from "1.IH"(2) [OF HeapFile Nil] HeapFile Nil show ?thesis
        by (simp add: GetLine.simps [of c])
    next
      case (Cons l ls)
      with HeapFile show ?thesis
        by (simp add: GetLine.simps [of c] GetLine_finish_fields)
    qed
  qed
qed









lemma GetLine_buffer:
  "fst (GetLine c) \<Longrightarrow>
     lineBuf (snd (GetLine c)) \<noteq> [] \<and> last (lineBuf (snd (GetLine c))) = CHR 0x0A
     \<and> linePtr (snd (GetLine c)) = 0 \<and> savedToken (snd (GetLine c)) = T_NONE"
proof (induction c rule: GetLine.induct)
  case (1 c)
  show ?case
  proof (cases "currentFile c")
    case NULL
    with "1.prems" show ?thesis by (simp add: GetLine.simps [of c])
  next
    case MainFile
    show ?thesis
    proof (cases "mainRest c")
      case Nil
      from "1.IH"(1) [OF MainFile Nil] "1.prems" MainFile Nil show ?thesis
        by (simp add: GetLine.simps [of c])
    next
      case (Cons l ls)
      with MainFile show ?thesis
        by (simp add: GetLine.simps [of c] GetLine_finish_fields GetLine_finish_newline)
    qed
  next
    case (HeapFile fptr name n nxt)
    show ?thesis
    proof (cases fptr)
      case Nil
      from "1.IH"(2) [OF HeapFile Nil] "1.prems" HeapFile Nil show ?thesis
        by (simp add: GetLine.simps [of c])
    next
      case (Cons l ls)
      with HeapFile show ?thesis
        by (simp add: GetLine.simps [of c] GetLine_finish_fields GetLine_finish_newline)
    qed
  qed
qed

lemma GetLine_counter:
  "fst (GetLine c) \<Longrightarrow>
     (MainFile \<in> set (chain (currentFile c)) \<and> currentFile (snd (GetLine c)) = MainFile
        \<and> mainLineNumber (snd (GetLine c)) = mainLineNumber c + 1)
     \<or> (\<exists>l ls name n nxt.
           HeapFile (l # ls) name n nxt \<in> set (chain (currentFile c))
           \<and> currentFile (snd (GetLine c)) = HeapFile ls name (n + 1) nxt
           \<and> mainLineNumber (snd (GetLine c)) = mainLineNumber c)"
proof (induction c rule: GetLine.induct)
  case (1 c)
  show ?case
  proof (cases "currentFile c")
    case NULL
    with "1.prems" show ?thesis by (simp add: GetLine.simps [of c])
  next
    case MainFile
    show ?thesis
    proof (cases "mainRest c")
      case Nil
      with MainFile "1.prems"
      have "fst (GetLine (c\<lparr>currentFile := NULL, currentInclude := None\<rparr>))"
        by (simp add: GetLine.simps [of c])
      then show ?thesis
        by (simp add: GetLine.simps [of "c\<lparr>currentFile := NULL, currentInclude := None\<rparr>"])
    next
      case (Cons l ls)
      with MainFile show ?thesis
        by (simp add: GetLine.simps [of c] GetLine_finish_fields)
    qed
  next
    case (HeapFile fptr name n nxt)
    show ?thesis
    proof (cases fptr)
      case Nil
      let ?c1 = "c\<lparr>currentFile := nxt,
                    currentInclude :=
                      (case nxt of HeapFile fptr' name' n' nxt' \<Rightarrow> Some name' | _ \<Rightarrow> None),
                    freed := HeapFile fptr name n nxt # freed c\<rparr>"
      from HeapFile Nil have eq: "GetLine c = GetLine ?c1"
        by (simp add: GetLine.simps [of c])
      with "1.prems" have "fst (GetLine ?c1)" by simp
      from "1.IH"(2) [OF HeapFile Nil this] eq HeapFile show ?thesis
        by auto
    next
      case (Cons l ls)
      with HeapFile show ?thesis
        by (auto simp: GetLine.simps [of c] GetLine_finish_fields)
    qed
  qed
qed

lemma result_eq:
  "outcome r = Inr x \<Longrightarrow> r = Inr (x, context_of r)"
  by (auto simp: outcome_def context_of_def split: sum.splits prod.splits)

text \<open>
  C9. Every line refill that succeeds leaves the line buffer ending in a newline, has
  cleared the saved lookahead token, and has advanced by one the line counter of the
  structure that delivered the line: either the main file, which then is the current
  file, or an include file of the stack, which then is the current file with its stream
  moved on by one line.
\<close>

theorem C9_successful_refill:
  "fst (GetLine c) \<longrightarrow>
     lineBuf (snd (GetLine c)) \<noteq> [] \<and> last (lineBuf (snd (GetLine c))) = CHR 0x0A
     \<and> savedToken (snd (GetLine c)) = T_NONE
     \<and> ((MainFile \<in> set (chain (currentFile c)) \<and> currentFile (snd (GetLine c)) = MainFile
          \<and> mainLineNumber (snd (GetLine c)) = mainLineNumber c + 1)
        \<or> (\<exists>l ls name n nxt.
             HeapFile (l # ls) name n nxt \<in> set (chain (currentFile c))
             \<and> currentFile (snd (GetLine c)) = HeapFile ls name (n + 1) nxt
             \<and> mainLineNumber (snd (GetLine c)) = mainLineNumber c))"
  using GetLine_buffer [of c] GetLine_counter [of c] by blast

theorem C9_successful_refill_witness:
  "fst (GetLine (new_context (\<lambda>name. None) [] [''x'']))
   \<and> lineBuf (snd (GetLine (new_context (\<lambda>name. None) [] [''x''])))
        = [CHR ''x'', CHR 0x0A]
   \<and> last (lineBuf (snd (GetLine (new_context (\<lambda>name. None) [] [''x''])))) = CHR 0x0A
   \<and> savedToken (snd (GetLine (new_context (\<lambda>name. None) [] [''x'']))) = T_NONE
   \<and> mainLineNumber (snd (GetLine (new_context (\<lambda>name. None) [] [''x''])))
        = mainLineNumber (new_context (\<lambda>name. None) [] [''x'']) + 1"
proof -
  let ?c = "new_context (\<lambda>name. None) [] [''x'']"
  have h: "fst (GetLine ?c)" by code_simp
  have b: "lineBuf (snd (GetLine ?c)) = [CHR ''x'', CHR 0x0A]" by code_simp
  have m: "currentFile (snd (GetLine ?c)) = MainFile" by code_simp
  from C9_successful_refill [of ?c] h m b show ?thesis by auto
qed

text \<open>
  C5. \<open>PushFile\<close> includes a name once: when the name is in the list of included files
  the call returns \<open>TRUE\<close> and leaves the context as it was, so no file is opened and
  no structure is pushed; hence a second push of a name whose first push succeeded
  changes nothing. The last conjunct runs a main source \<open>a\<close> with a file \<open>B\<close> of one
  line \<open>x\<close>, pushed twice: the line refills deliver \<open>x\<close> once, then \<open>a\<close>, then the
  end of input.
\<close>

theorem C5_PushFile_includes_once:
  "(name \<in> set (includedFiles c) \<longrightarrow> PushFile c name = Inr (True, c))
   \<and> (outcome (PushFile c name) = Inr True \<longrightarrow>
        PushFile (context_of (PushFile c name)) name
          = Inr (True, context_of (PushFile c name)))
   \<and> (let c0 = new_context (\<lambda>name. if name = ''B'' then Some [''x''] else None)
                   [True, True] [''a''];
           c1 = context_of (PushFile c0 ''B'');
           c2 = context_of (PushFile c1 ''B'');
           l1 = GetLine c2; l2 = GetLine (snd l1); l3 = GetLine (snd l2)
       in outcome (PushFile c0 ''B'') = Inr True \<and> outcome (PushFile c1 ''B'') = Inr True
          \<and> currentFile c2 = HeapFile [''x''] ''B'' 0 MainFile
          \<and> fst l1 \<and> lineBuf (snd l1) = [CHR ''x'', CHR 0x0A]
          \<and> fst l2 \<and> lineBuf (snd l2) = [CHR ''a'', CHR 0x0A]
          \<and> \<not> fst l3)"
proof -
  have a: "name \<in> set (includedFiles c) \<longrightarrow> PushFile c name = Inr (True, c)"
    by (simp add: PushFile_def)
  have "name \<in> set (includedFiles (context_of (PushFile c name)))"
    if "outcome (PushFile c name) = Inr True"
    using that
    by (auto simp: PushFile_def malloc_def Let_def outcome_def context_of_def
          split: list.splits bool.splits option.splits if_splits)
  then have b: "outcome (PushFile c name) = Inr True \<longrightarrow>
        PushFile (context_of (PushFile c name)) name
          = Inr (True, context_of (PushFile c name))"
    by (simp add: PushFile_def)
  have c: "let c0 = new_context (\<lambda>name. if name = ''B'' then Some [''x''] else None)
                   [True, True] [''a''];
           c1 = context_of (PushFile c0 ''B'');
           c2 = context_of (PushFile c1 ''B'');
           l1 = GetLine c2; l2 = GetLine (snd l1); l3 = GetLine (snd l2)
       in outcome (PushFile c0 ''B'') = Inr True \<and> outcome (PushFile c1 ''B'') = Inr True
          \<and> currentFile c2 = HeapFile [''x''] ''B'' 0 MainFile
          \<and> fst l1 \<and> lineBuf (snd l1) = [CHR ''x'', CHR 0x0A]
          \<and> fst l2 \<and> lineBuf (snd l2) = [CHR ''a'', CHR 0x0A]
          \<and> \<not> fst l3"
    by code_simp
  from a b c show ?thesis by blast
qed

theorem C5_PushFile_includes_once_witness:
  "outcome (PushFile (new_context (\<lambda>name. if name = ''B'' then Some [''x''] else None)
                        [True, True] [''a'']) ''B'') = Inr True
   \<and> ''B'' \<in> set (includedFiles (context_of
          (PushFile (new_context (\<lambda>name. if name = ''B'' then Some [''x''] else None)
                        [True, True] [''a'']) ''B'')))
   \<and> PushFile (context_of
          (PushFile (new_context (\<lambda>name. if name = ''B'' then Some [''x''] else None)
                        [True, True] [''a'']) ''B'')) ''B''
       = Inr (True, context_of
          (PushFile (new_context (\<lambda>name. if name = ''B'' then Some [''x''] else None)
                        [True, True] [''a'']) ''B''))"
proof -
  let ?c0 = "new_context (\<lambda>name. if name = ''B'' then Some [''x''] else None)
               [True, True] [''a'']"
  let ?c1 = "context_of (PushFile ?c0 ''B'')"
  have h1: "outcome (PushFile ?c0 ''B'') = Inr True" by code_simp
  have h2: "''B'' \<in> set (includedFiles ?c1)" by code_simp
  from C5_PushFile_includes_once [of "''B''" ?c1] h2
  have "PushFile ?c1 ''B'' = Inr (True, ?c1)" by blast
  with h1 h2 show ?thesis by simp
qed

text \<open>
  C6. When \<open>PushFile\<close> is called with a name that is not in the list of included files,
  its two allocations succeed and the file cannot be opened, it returns \<open>FALSE\<close>; the
  context it leaves differs from the one it was given only in the allocator's state and in
  the list of included files, which now starts with the name: the stack and the current
  file are as before. The name is entered before the file is opened: it is in the list
  also when the second allocation, which precedes the opening, fails.
\<close>

theorem C6_PushFile_open_failure:
  "name \<notin> set (includedFiles c) \<and> fileSystem c name = None \<longrightarrow>
     (mallocOracle c = True # True # rest \<longrightarrow>
        PushFile c name
          = Inr (False, c\<lparr>mallocOracle := rest, includedFiles := name # includedFiles c\<rparr>)
        \<and> currentFile (context_of (PushFile c name)) = currentFile c
        \<and> name \<in> set (includedFiles (context_of (PushFile c name))))
     \<and> (mallocOracle c = True # False # rest \<longrightarrow>
        PushFile c name
          = Inl (InsufficientMemory,
                 c\<lparr>mallocOracle := rest, includedFiles := name # includedFiles c\<rparr>))"
  by (auto simp: PushFile_def malloc_def Let_def context_of_def)

theorem C6_PushFile_open_failure_witness:
  "''B'' \<notin> set (includedFiles (new_context (\<lambda>name. None) [True, True] [''a'']))
   \<and> fileSystem (new_context (\<lambda>name. None) [True, True] [''a'']) ''B'' = None
   \<and> mallocOracle (new_context (\<lambda>name. None) [True, True] [''a'']) = [True, True]
   \<and> outcome (PushFile (new_context (\<lambda>name. None) [True, True] [''a'']) ''B'') = Inr False
   \<and> currentFile (context_of (PushFile (new_context (\<lambda>name. None) [True, True] [''a'']) ''B''))
       = currentFile (new_context (\<lambda>name. None) [True, True] [''a''])
   \<and> ''B'' \<in> set (includedFiles
         (context_of (PushFile (new_context (\<lambda>name. None) [True, True] [''a'']) ''B'')))
   \<and> mallocOracle (new_context (\<lambda>name. None) [True, False] [''a'']) = [True, False]
   \<and> outcome (PushFile (new_context (\<lambda>name. None) [True, False] [''a'']) ''B'')
       = Inl InsufficientMemory
   \<and> ''B'' \<in> set (includedFiles
         (context_of (PushFile (new_context (\<lambda>name. None) [True, False] [''a'']) ''B'')))"
proof -
  let ?c = "new_context (\<lambda>name. None) [True, True] [''a'']"
  let ?d = "new_context (\<lambda>name. None) [True, False] [''a'']"
  have h1: "''B'' \<notin> set (includedFiles ?c) \<and> fileSystem ?c ''B'' = None" by code_simp
  have h2: "mallocOracle ?c = [True, True]" by code_simp
  have h3: "''B'' \<notin> set (includedFiles ?d) \<and> fileSystem ?d ''B'' = None" by code_simp
  have h4: "mallocOracle ?d = [True, False]" by code_simp
  from C6_PushFile_open_failure [of "''B''" ?c "[]"] h1 h2
  have r1: "PushFile ?c ''B''
      = Inr (False, ?c\<lparr>mallocOracle := [], includedFiles := ''B'' # includedFiles ?c\<rparr>)"
    by blast
  from C6_PushFile_open_failure [of "''B''" ?d "[]"] h3 h4
  have r2: "PushFile ?d ''B''
      = Inl (InsufficientMemory,
             ?d\<lparr>mallocOracle := [], includedFiles := ''B'' # includedFiles ?d\<rparr>)"
    by blast
  from h1 h2 h3 h4 show ?thesis
    by (simp add: r1 r2 outcome_def context_of_def)
qed




subsection \<open>The recognizer's paths and the capacity of the token buffer\<close>

text \<open>
  The paths of \<open>NextToken\<close> by the first character, and the fact that a token
  recognized with a capacity \<open>m\<close> is recognized in the same way with any larger one.
\<close>

lemma ident_dispatch:
  assumes "IdentifierCharP ch" "\<not> isdigit ch"
  shows "ch \<noteq> CHR 0x22 \<and> ch \<noteq> CHR 0x27 \<and> ch \<noteq> CHR ''<'' \<and> ch \<noteq> CHR ''>'' \<and> ch \<noteq> CHR ''0''"
  using assms by (auto simp: IdentifierCharP_def isupper_def islower_def isdigit_def)

lemma NextToken_first_word:
  assumes "SkipSpaces c0 = (Some ch, c1)" "IdentifierCharP ch" "\<not> isdigit ch"
    and "IdentifierToken MAXTOKEN (c1\<lparr>tokenOffset := linePtr c1\<rparr>) ch = Inr (k1, c2)"
    and "k1 = T_ELSE \<or> k1 = T_END \<or> k1 = T_DO \<or> k1 = T_LOOP"
    and "SkipSpaces c2 = (r, c3)"
  shows "NextToken MAXTOKEN c0 =
     (case r of
        None \<Rightarrow> Inr (k1, c3\<lparr>linePtr := linePtr c2\<rparr>)
      | Some ch3 \<Rightarrow>
          if IdentifierCharP ch3 then
            (case IdentifierToken MAXTOKEN c3 ch3 of
               Inl e \<Rightarrow> Inl e
             | Inr (k2, c4) \<Rightarrow>
                 (case map_of spec_merge_table (k1, k2) of
                    Some k \<Rightarrow> Inr (k, c4)
                  | None \<Rightarrow> Inr (k1, c4\<lparr>linePtr := linePtr c2\<rparr>)))
          else Inr (k1, c3\<lparr>linePtr := linePtr c2\<rparr>))"
proof -
  note d = ident_dispatch [OF assms(2,3)]
  have start: "NextToken MAXTOKEN c0 =
      (if k1 = T_ELSE then
                        (let savePtr = linePtr c2 in
                         case SkipSpaces c2 of
                           (Some ch3, c3) \<Rightarrow>
                             if IdentifierCharP ch3 then
                               (case IdentifierToken MAXTOKEN c3 ch3 of
                                  Inl e \<Rightarrow> Inl e
                                | Inr (tkn2, c4) \<Rightarrow>
                                    if tkn2 = T_IF then Inr (T_ELSE_IF, c4)
                                    else Inr (k1, c4\<lparr>linePtr := savePtr\<rparr>))
                             else Inr (k1, c3\<lparr>linePtr := savePtr\<rparr>)
                         | (None, c3) \<Rightarrow> Inr (k1, c3\<lparr>linePtr := savePtr\<rparr>))
                      else if k1 = T_END then
                        (let savePtr = linePtr c2 in
                         case SkipSpaces c2 of
                           (Some ch3, c3) \<Rightarrow>
                             if IdentifierCharP ch3 then
                               (case IdentifierToken MAXTOKEN c3 ch3 of
                                  Inl e \<Rightarrow> Inl e
                                | Inr (tkn2, c4) \<Rightarrow>
                                    if tkn2 = T_DEF then Inr (T_END_DEF, c4)
                                    else if tkn2 = T_IF then Inr (T_END_IF, c4)
                                    else if tkn2 = T_SELECT then Inr (T_END_SELECT, c4)
                                    else if tkn2 = T_ASM then Inr (T_END_ASM, c4)
                                    else Inr (k1, c4\<lparr>linePtr := savePtr\<rparr>))
                             else Inr (k1, c3\<lparr>linePtr := savePtr\<rparr>)
                         | (None, c3) \<Rightarrow> Inr (k1, c3\<lparr>linePtr := savePtr\<rparr>))
                      else if k1 = T_DO then
                        (let savePtr = linePtr c2 in
                         case SkipSpaces c2 of
                           (Some ch3, c3) \<Rightarrow>
                             if IdentifierCharP ch3 then
                               (case IdentifierToken MAXTOKEN c3 ch3 of
                                  Inl e \<Rightarrow> Inl e
                                | Inr (tkn2, c4) \<Rightarrow>
                                    if tkn2 = T_WHILE then Inr (T_DO_WHILE, c4)
                                    else if tkn2 = T_UNTIL then Inr (T_DO_UNTIL, c4)
                                    else Inr (k1, c4\<lparr>linePtr := savePtr\<rparr>))
                             else Inr (k1, c3\<lparr>linePtr := savePtr\<rparr>)
                         | (None, c3) \<Rightarrow> Inr (k1, c3\<lparr>linePtr := savePtr\<rparr>))
                      else if k1 = T_LOOP then
                        (let savePtr = linePtr c2 in
                         case SkipSpaces c2 of
                           (Some ch3, c3) \<Rightarrow>
                             if IdentifierCharP ch3 then
                               (case IdentifierToken MAXTOKEN c3 ch3 of
                                  Inl e \<Rightarrow> Inl e
                                | Inr (tkn2, c4) \<Rightarrow>
                                    if tkn2 = T_WHILE then Inr (T_LOOP_WHILE, c4)
                                    else if tkn2 = T_UNTIL then Inr (T_LOOP_UNTIL, c4)
                                    else Inr (k1, c4\<lparr>linePtr := savePtr\<rparr>))
                             else Inr (k1, c3\<lparr>linePtr := savePtr\<rparr>)
                         | (None, c3) \<Rightarrow> Inr (k1, c3\<lparr>linePtr := savePtr\<rparr>))
                      else Inr (k1, c2))"
    unfolding NextToken_def assms(1) by (simp add: d assms(2,3,4) Let_def)
  have inner: "(case map_of spec_merge_table (k1, k2) of
                    Some k \<Rightarrow> Inr (k, c4)
                  | None \<Rightarrow> Inr (k1, c4\<lparr>linePtr := linePtr c2\<rparr>)) =
        (if k1 = T_ELSE then (if k2 = T_IF then Inr (T_ELSE_IF, c4)
                                    else Inr (k1, c4\<lparr>linePtr := linePtr c2\<rparr>))
         else if k1 = T_END then (if k2 = T_DEF then Inr (T_END_DEF, c4)
                                    else if k2 = T_IF then Inr (T_END_IF, c4)
                                    else if k2 = T_SELECT then Inr (T_END_SELECT, c4)
                                    else if k2 = T_ASM then Inr (T_END_ASM, c4)
                                    else Inr (k1, c4\<lparr>linePtr := linePtr c2\<rparr>))
         else if k1 = T_DO then (if k2 = T_WHILE then Inr (T_DO_WHILE, c4)
                                    else if k2 = T_UNTIL then Inr (T_DO_UNTIL, c4)
                                    else Inr (k1, c4\<lparr>linePtr := linePtr c2\<rparr>))
         else if k1 = T_LOOP then (if k2 = T_WHILE then Inr (T_LOOP_WHILE, c4)
                                    else if k2 = T_UNTIL then Inr (T_LOOP_UNTIL, c4)
                                    else Inr (k1, c4\<lparr>linePtr := linePtr c2\<rparr>))
         else Inr (k1, c4\<lparr>linePtr := linePtr c2\<rparr>))" for k2 c4
    by (simp add: spec_merge_table_def)
  show ?thesis
    unfolding start inner assms(6) using assms(5)
    by (auto simp: Let_def split: option.splits sum.splits)
qed


lemma NextToken_other_word:
  assumes "SkipSpaces c0 = (Some ch, c1)" "IdentifierCharP ch" "\<not> isdigit ch"
    and "IdentifierToken MAXTOKEN (c1\<lparr>tokenOffset := linePtr c1\<rparr>) ch = Inr (k1, c2)"
    and "k1 \<noteq> T_ELSE" "k1 \<noteq> T_END" "k1 \<noteq> T_DO" "k1 \<noteq> T_LOOP"
  shows "NextToken MAXTOKEN c0 = Inr (k1, c2)"
  unfolding NextToken_def assms(1)
  by (simp add: ident_dispatch [OF assms(2,3)] assms(2-8) Let_def)

lemma NextToken_word_fails:
  assumes "SkipSpaces c0 = (Some ch, c1)" "IdentifierCharP ch" "\<not> isdigit ch"
    and "IdentifierToken MAXTOKEN (c1\<lparr>tokenOffset := linePtr c1\<rparr>) ch = Inl e"
  shows "NextToken MAXTOKEN c0 = Inl e"
  unfolding NextToken_def assms(1)
  by (simp add: ident_dispatch [OF assms(2,3)] assms(2-4) Let_def)

lemma NextToken_string:
  assumes "SkipSpaces c0 = (Some (CHR 0x22), c1)"
  shows "NextToken MAXTOKEN c0 = StringToken MAXTOKEN (c1\<lparr>tokenOffset := linePtr c1\<rparr>)"
  unfolding NextToken_def assms(1) by (simp add: Let_def)

lemma NextToken_no_capacity:
  assumes "SkipSpaces c0 = (r, c1)"
    and "r = None \<or> (\<exists>ch. r = Some ch \<and> ch \<noteq> CHR 0x22 \<and> (isdigit ch \<or> \<not> IdentifierCharP ch))"
  shows "NextToken M c0 = NextToken m c0"
proof (cases r)
  case None
  with assms(1) show ?thesis by (simp add: NextToken_def)
next
  case (Some ch)
  with assms(2) have a: "ch \<noteq> CHR 0x22" and b: "isdigit ch \<or> \<not> IdentifierCharP ch" by auto
  from b show ?thesis
  proof
    assume "isdigit ch"
    with a Some assms(1) show ?thesis by (simp add: NextToken_def Let_def)
  next
    assume "\<not> IdentifierCharP ch"
    with a Some assms(1) show ?thesis by (simp add: NextToken_def Let_def)
  qed
qed

lemma IdentifierToken_loop_capacity:
  "IdentifierToken_loop m len p c = Inr r \<Longrightarrow> m \<le> M \<Longrightarrow> IdentifierToken_loop M len p c = Inr r"
proof (induction m len p c rule: IdentifierToken_loop.induct)
  case (1 m len p c)
  obtain x c1 where g: "GetChar c = (x, c1)" by (cases "GetChar c")
  note pm = "1.prems"(1) [unfolded IdentifierToken_loop.simps [of m len p c]]
  show ?case
  proof (cases x)
    case None
    with g pm show ?thesis by (simp add: IdentifierToken_loop.simps [of M len p c])
  next
    case (Some ch)
    show ?thesis
    proof (cases "IdentifierCharP ch")
      case False
      with g Some pm show ?thesis by (simp add: IdentifierToken_loop.simps [of M len p c])
    next
      case True
      with g Some pm have fit: "\<not> len + 1 > m" by (auto split: if_splits)
      with g Some True pm have "IdentifierToken_loop m (len + 1) (p @ [ch]) c1 = Inr r" by simp
      from "1.IH" [OF g [symmetric] Some True fit this "1.prems"(2)]
      have "IdentifierToken_loop M (len + 1) (p @ [ch]) c1 = Inr r" .
      with g Some True fit "1.prems"(2) show ?thesis
        by (simp add: IdentifierToken_loop.simps [of M len p c])
    qed
  qed
qed

lemma IdentifierToken_capacity:
  "IdentifierToken m c ch = Inr r \<Longrightarrow> m \<le> M \<Longrightarrow> IdentifierToken M c ch = Inr r"
proof -
  assume a: "IdentifierToken m c ch = Inr r" and le: "m \<le> M"
  then obtain q where q: "IdentifierToken_loop m 1 [ch] c = Inr q"
    by (cases "IdentifierToken_loop m 1 [ch] c") (simp_all add: IdentifierToken_def)
  from IdentifierToken_loop_capacity [OF q le] q a show ?thesis
    by (simp add: IdentifierToken_def)
qed

lemma StringToken_loop_capacity:
  "StringToken_loop m len p c = Inr r \<Longrightarrow> m \<le> M \<Longrightarrow> StringToken_loop M len p c = Inr r"
proof (induction m len p c rule: StringToken_loop.induct)
  case (1 m len p c)
  obtain x c1 where g: "XGetC c = (x, c1)" by (cases "XGetC c")
  note pm = "1.prems"(1) [unfolded StringToken_loop.simps [of m len p c]]
  show ?case
  proof (cases x)
    case None
    with g pm show ?thesis by (simp add: StringToken_loop.simps [of M len p c])
  next
    case (Some ch)
    show ?thesis
    proof (cases "ch = CHR 0x22")
      case True
      with g Some pm show ?thesis by (simp add: StringToken_loop.simps [of M len p c])
    next
      case False
      with g Some pm have fit: "\<not> len + 1 > m" by (auto split: if_splits)
      show ?thesis
      proof (cases "ch = CHR 0x5C")
        case True
        obtain lch c2 where l: "LiteralChar c1 = (lch, c2)" by (cases "LiteralChar c1")
        with g Some False fit True pm
        have "StringToken_loop m (len + 1) (p @ [lch]) c2 = Inr r" by simp
        from "1.IH"(1) [OF g [symmetric] Some False fit True l [symmetric] this "1.prems"(2)]
        have "StringToken_loop M (len + 1) (p @ [lch]) c2 = Inr r" .
        with g Some False fit True l "1.prems"(2) show ?thesis
          by (simp add: StringToken_loop.simps [of M len p c])
      next
        case nb: False
        with g Some False fit pm
        have "StringToken_loop m (len + 1) (p @ [ch]) c1 = Inr r" by simp
        from "1.IH"(2) [OF g [symmetric] Some False fit nb this "1.prems"(2)]
        have "StringToken_loop M (len + 1) (p @ [ch]) c1 = Inr r" .
        with g Some False fit nb "1.prems"(2) show ?thesis
          by (simp add: StringToken_loop.simps [of M len p c])
      qed
    qed
  qed
qed

lemma StringToken_capacity:
  "StringToken m c = Inr r \<Longrightarrow> m \<le> M \<Longrightarrow> StringToken M c = Inr r"
proof -
  assume a: "StringToken m c = Inr r" and le: "m \<le> M"
  then obtain q where q: "StringToken_loop m 0 [] c = Inr q"
    by (cases "StringToken_loop m 0 [] c") (simp_all add: StringToken_def)
  from StringToken_loop_capacity [OF q le] q a show ?thesis
    by (simp add: StringToken_def)
qed


lemma NextToken_capacity:
  assumes ok: "NextToken m c0 = Inr res" and le: "m \<le> M"
  shows "NextToken M c0 = Inr res"
proof -
  obtain r c1 where s: "SkipSpaces c0 = (r, c1)" by (cases "SkipSpaces c0")
  let ?c = "c1\<lparr>tokenOffset := linePtr c1\<rparr>"
  show ?thesis
  proof (cases "r = None \<or> (\<exists>ch. r = Some ch \<and> ch \<noteq> CHR 0x22 \<and> (isdigit ch \<or> \<not> IdentifierCharP ch))")
    case True
    from NextToken_no_capacity [OF s True, of M m] ok show ?thesis by simp
  next
    case False
    then obtain ch where r: "r = Some ch"
      and ch: "ch = CHR 0x22 \<or> (\<not> isdigit ch \<and> IdentifierCharP ch)"
      by (cases r) auto
    from ch show ?thesis
    proof
      assume q: "ch = CHR 0x22"
      from s r q have "NextToken m c0 = StringToken m ?c" "NextToken M c0 = StringToken M ?c"
        by (simp_all add: NextToken_string)
      with ok StringToken_capacity [OF _ le, of ?c res] show ?thesis by simp
    next
      assume "\<not> isdigit ch \<and> IdentifierCharP ch"
      then have nd: "\<not> isdigit ch" and ic: "IdentifierCharP ch" by simp_all
      from s r have s': "SkipSpaces c0 = (Some ch, c1)" by simp
      show ?thesis
      proof (cases "IdentifierToken m ?c ch")
        case (Inl e)
        from NextToken_word_fails [OF s' ic nd Inl] ok show ?thesis by simp
      next
        case (Inr x)
        obtain k1 c2 where x: "x = (k1, c2)" by (cases x)
        with Inr have im: "IdentifierToken m ?c ch = Inr (k1, c2)" by simp
        from IdentifierToken_capacity [OF im le]
        have iM: "IdentifierToken M ?c ch = Inr (k1, c2)" .
        show ?thesis
        proof (cases "k1 = T_ELSE \<or> k1 = T_END \<or> k1 = T_DO \<or> k1 = T_LOOP")
          case False
          then have k: "k1 \<noteq> T_ELSE" "k1 \<noteq> T_END" "k1 \<noteq> T_DO" "k1 \<noteq> T_LOOP" by simp_all
          from NextToken_other_word [OF s' ic nd im k] NextToken_other_word [OF s' ic nd iM k] ok
          show ?thesis by simp
        next
          case True
          obtain r2 c3 where s2: "SkipSpaces c2 = (r2, c3)" by (cases "SkipSpaces c2")
          note fm = NextToken_first_word [OF s' ic nd im True s2]
          note fM = NextToken_first_word [OF s' ic nd iM True s2]
          show ?thesis
          proof (cases r2)
            case None
            with fm fM ok show ?thesis by simp
          next
            case (Some ch3)
            show ?thesis
            proof (cases "IdentifierCharP ch3")
              case False
              with Some fm fM ok show ?thesis by simp
            next
              case ic3: True
              show ?thesis
              proof (cases "IdentifierToken m c3 ch3")
                case (Inl e)
                with Some ic3 fm ok show ?thesis by simp
              next
                case (Inr y)
                from IdentifierToken_capacity [OF Inr le]
                have "IdentifierToken M c3 ch3 = Inr y" .
                with Inr Some ic3 fm fM ok show ?thesis by simp
              qed
            qed
          qed
        qed
      qed
    qed
  qed
qed

lemma GetToken_capacity:
  assumes "outcome (GetToken m c) = Inr t" and "m \<le> M"
  shows "GetToken M c = GetToken m c"
proof -
  from assms(1) have e: "GetToken m c = Inr (t, context_of (GetToken m c))"
    by (rule result_eq)
  show ?thesis
  proof (cases "savedToken c \<noteq> T_NONE")
    case True
    then show ?thesis by (simp add: GetToken_def)
  next
    case False
    with e have "NextToken m c = Inr (t, context_of (GetToken m c))"
      by (simp add: GetToken_def)
    from NextToken_capacity [OF this assms(2)] False e show ?thesis
      by (simp add: GetToken_def)
  qed
qed

subsection \<open>Comments across lines\<close>

lemma XGetC_inComment: "XGetC c = (r, c') \<Longrightarrow> inComment c' = inComment c"
  by (auto simp: XGetC_def split: if_splits)

lemma SkipComment_loop_inComment:
  "SkipComment_loop lastch c = (r, c') \<Longrightarrow> inComment c' = inComment c"
proof (induction lastch c arbitrary: r c' rule: SkipComment_loop.induct)
  case (1 lastch c)
  obtain x c1 where x: "XGetC c = (x, c1)" by (cases "XGetC c")
  then have c1: "inComment c1 = inComment c" by (rule XGetC_inComment)
  note p = "1.prems" [unfolded SkipComment_loop.simps [of lastch c]]
  show ?case
  proof (cases x)
    case None
    with x p have "c' = c1" by simp
    with c1 show ?thesis by simp
  next
    case (Some ch)
    show ?thesis
    proof (cases "lastch = CHR ''*'' \<and> ch = CHR ''/''")
      case True
      with x Some p have "c' = c1" by simp
      with c1 show ?thesis by simp
    next
      case False
      with x Some p have "SkipComment_loop ch c1 = (r, c')" by auto
      from "1.IH" [OF x [symmetric] Some False this] c1 show ?thesis by simp
    qed
  qed
qed

lemma SkipComment_inComment: "inComment (snd (SkipComment c)) = inComment c"
proof -
  obtain r c' where e: "SkipComment_loop (CHR 0x00) c = (r, c')"
    by (cases "SkipComment_loop (CHR 0x00) c")
  from SkipComment_loop_inComment [OF e] e show ?thesis by (simp add: SkipComment_def)
qed

lemma GetChar_in_carried_comment:
  "inComment c \<Longrightarrow> \<not> fst (SkipComment c) \<Longrightarrow>
     fst (GetChar c) = None \<and> inComment (snd (GetChar c))"
  using SkipComment_inComment [of c]
  by (cases "SkipComment c") (simp add: GetChar_def)

lemma GetChar_comment_closed:
  "inComment c \<Longrightarrow> fst (SkipComment c) \<Longrightarrow>
     GetChar c = GetChar_loop ((snd (SkipComment c))\<lparr>inComment := False\<rparr>)"
  by (cases "SkipComment c") (simp add: GetChar_def)

text \<open>
  C3. A block comment over two lines, \<open>/* line1\<close> and \<open>line2 */ IF\<close>, for every
  \<open>MAXTOKEN\<close> of at least 2: on the first line the recognizer returns the end-of-line
  token and leaves the in-comment flag set; the flag is still set after the refill; on
  the second line the recognizer returns \<open>IF\<close> with the flag cleared, then the
  end-of-line token, and the next refill reports the end of the input. So the only
  content token is one \<open>IF\<close>. In general: inside a carried-over comment whose end is not
  on the line, \<open>GetChar\<close> returns \<open>EOF\<close> and the flag stays set; a refill does not
  change the flag; and when the end is on the line, \<open>GetChar\<close> goes on behind it with
  the flag cleared.
\<close>

theorem C3_block_comment_over_two_lines:
  "(2 \<le> MAXTOKEN \<longrightarrow>
     (let c0 = new_context (\<lambda>name. None) [] [''/* line1'', ''line2 */ IF''];
          l1 = GetLine c0; t1 = GetToken MAXTOKEN (snd l1);
          l2 = GetLine (context_of t1); t2 = GetToken MAXTOKEN (snd l2);
          t3 = GetToken MAXTOKEN (context_of t2);
          l3 = GetLine (context_of t3)
      in fst l1 \<and> outcome t1 = Inr T_EOL \<and> inComment (context_of t1)
         \<and> fst l2 \<and> inComment (snd l2)
         \<and> outcome t2 = Inr T_IF \<and> \<not> inComment (context_of t2)
         \<and> outcome t3 = Inr T_EOL \<and> \<not> fst l3))
   \<and> (inComment c \<and> \<not> fst (SkipComment c) \<longrightarrow>
        fst (GetChar c) = None \<and> inComment (snd (GetChar c)))
   \<and> inComment (snd (GetLine c)) = inComment c
   \<and> (inComment c \<and> fst (SkipComment c) \<longrightarrow>
        GetChar c = GetChar_loop ((snd (SkipComment c))\<lparr>inComment := False\<rparr>))"
proof -
  have trace:
    "(let c0 = new_context (\<lambda>name. None) [] [''/* line1'', ''line2 */ IF''];
          l1 = GetLine c0; t1 = GetToken MAXTOKEN (snd l1);
          l2 = GetLine (context_of t1); t2 = GetToken MAXTOKEN (snd l2);
          t3 = GetToken MAXTOKEN (context_of t2);
          l3 = GetLine (context_of t3)
      in fst l1 \<and> outcome t1 = Inr T_EOL \<and> inComment (context_of t1)
         \<and> fst l2 \<and> inComment (snd l2)
         \<and> outcome t2 = Inr T_IF \<and> \<not> inComment (context_of t2)
         \<and> outcome t3 = Inr T_EOL \<and> \<not> fst l3)" if le: "2 \<le> MAXTOKEN"
  proof -
    let ?c0 = "new_context (\<lambda>name. None) [] [''/* line1'', ''line2 */ IF'']"
    let ?c1 = "snd (GetLine ?c0)"
    let ?c2 = "snd (GetLine (context_of (GetToken 2 ?c1)))"
    let ?c3 = "context_of (GetToken 2 ?c2)"
    have t: "(let c0 = new_context (\<lambda>name. None) [] [''/* line1'', ''line2 */ IF''];
            l1 = GetLine c0; t1 = GetToken 2 (snd l1);
            l2 = GetLine (context_of t1); t2 = GetToken 2 (snd l2);
            t3 = GetToken 2 (context_of t2);
            l3 = GetLine (context_of t3)
        in fst l1 \<and> outcome t1 = Inr T_EOL \<and> inComment (context_of t1)
           \<and> fst l2 \<and> inComment (snd l2)
           \<and> outcome t2 = Inr T_IF \<and> \<not> inComment (context_of t2)
           \<and> outcome t3 = Inr T_EOL \<and> \<not> fst l3)"
      by code_simp
    then have o: "outcome (GetToken 2 ?c1) = Inr T_EOL" "outcome (GetToken 2 ?c2) = Inr T_IF"
      "outcome (GetToken 2 ?c3) = Inr T_EOL"
      unfolding Let_def by blast+
    note e = GetToken_capacity [OF o(1) le] GetToken_capacity [OF o(2) le]
      GetToken_capacity [OF o(3) le]
    from t show ?thesis unfolding Let_def e .
  qed
  from trace GetChar_in_carried_comment [of c] GetLine_inComment [of c]
    GetChar_comment_closed [of c]
  show ?thesis by blast
qed

theorem C3_block_comment_over_two_lines_witness:
  "(2::nat) \<le> 32
   \<and> (let c0 = new_context (\<lambda>name. None) [] [''/* line1'', ''line2 */ IF''];
          l1 = GetLine c0; t1 = GetToken 32 (snd l1);
          l2 = GetLine (context_of t1); t2 = GetToken 32 (snd l2);
          t3 = GetToken 32 (context_of t2);
          l3 = GetLine (context_of t3)
      in fst l1 \<and> outcome t1 = Inr T_EOL \<and> inComment (context_of t1)
         \<and> fst l2 \<and> inComment (snd l2)
         \<and> outcome t2 = Inr T_IF \<and> \<not> inComment (context_of t2)
         \<and> outcome t3 = Inr T_EOL \<and> \<not> fst l3)
   \<and> inComment ((context_on_line ''line1'')\<lparr>inComment := True\<rparr>)
   \<and> \<not> fst (SkipComment ((context_on_line ''line1'')\<lparr>inComment := True\<rparr>))
   \<and> fst (GetChar ((context_on_line ''line1'')\<lparr>inComment := True\<rparr>)) = None
   \<and> inComment (snd (GetChar ((context_on_line ''line1'')\<lparr>inComment := True\<rparr>)))
   \<and> inComment ((context_on_line ''line2 */ IF'')\<lparr>inComment := True\<rparr>)
   \<and> fst (SkipComment ((context_on_line ''line2 */ IF'')\<lparr>inComment := True\<rparr>))
   \<and> GetChar ((context_on_line ''line2 */ IF'')\<lparr>inComment := True\<rparr>)
       = GetChar_loop
           ((snd (SkipComment ((context_on_line ''line2 */ IF'')\<lparr>inComment := True\<rparr>)))
              \<lparr>inComment := False\<rparr>)
   \<and> fst (GetChar ((context_on_line ''line2 */ IF'')\<lparr>inComment := True\<rparr>)) = Some (CHR '' '')
   \<and> \<not> inComment (snd (GetChar ((context_on_line ''line2 */ IF'')\<lparr>inComment := True\<rparr>)))"
proof -
  let ?a = "(context_on_line ''line1'')\<lparr>inComment := True\<rparr>"
  let ?b = "(context_on_line ''line2 */ IF'')\<lparr>inComment := True\<rparr>"
  have h0: "(2::nat) \<le> 32" by simp
  have h1: "inComment ?a \<and> \<not> fst (SkipComment ?a)" by code_simp
  have h2: "inComment ?b \<and> fst (SkipComment ?b)" by code_simp
  have e: "fst (GetChar ?b) = Some (CHR '' '') \<and> \<not> inComment (snd (GetChar ?b))"
    by code_simp
  from C3_block_comment_over_two_lines [of 32 ?a] h0 h1
  have r1: "(let c0 = new_context (\<lambda>name. None) [] [''/* line1'', ''line2 */ IF''];
          l1 = GetLine c0; t1 = GetToken 32 (snd l1);
          l2 = GetLine (context_of t1); t2 = GetToken 32 (snd l2);
          t3 = GetToken 32 (context_of t2);
          l3 = GetLine (context_of t3)
      in fst l1 \<and> outcome t1 = Inr T_EOL \<and> inComment (context_of t1)
         \<and> fst l2 \<and> inComment (snd l2)
         \<and> outcome t2 = Inr T_IF \<and> \<not> inComment (context_of t2)
         \<and> outcome t3 = Inr T_EOL \<and> \<not> fst l3)
     \<and> fst (GetChar ?a) = None \<and> inComment (snd (GetChar ?a))"
    by blast
  from C3_block_comment_over_two_lines [of 32 ?b] h2
  have r2: "GetChar ?b = GetChar_loop ((snd (SkipComment ?b))\<lparr>inComment := False\<rparr>)"
    by blast
  from h0 h1 h2 e r1 r2 show ?thesis by blast
qed

subsection \<open>Compound keywords\<close>

text \<open>
  C2. When the first word of a token is one of \<open>ELSE\<close>, \<open>END\<close>, \<open>DO\<close>,
  \<open>LOOP\<close> (the context \<open>c2\<close> is the one left behind that word), the recognizer skips
  blanks and comments and, if an identifier character follows, reads a second word. If
  the pair is in the merge table the token is the compound one; in every other case (no
  second word, or a pair that is not in the table) the token is the first keyword and the
  cursor is set back to where it was in \<open>c2\<close>, before the blanks were skipped. For every
  \<open>MAXTOKEN\<close> of at least 3, the line \<open>END IF\<close> gives the one token \<open>END IF\<close> and
  then the end of the line, and the line \<open>END FOO\<close> gives \<open>END\<close> with the cursor
  behind \<open>END\<close>, then the identifier \<open>FOO\<close>, then the end of the line.
\<close>

theorem C2_compound_keywords:
  "(SkipSpaces c0 = (Some ch, c1) \<and> IdentifierCharP ch \<and> \<not> isdigit ch
      \<and> IdentifierToken MAXTOKEN (c1\<lparr>tokenOffset := linePtr c1\<rparr>) ch = Inr (k1, c2)
      \<and> (k1 = T_ELSE \<or> k1 = T_END \<or> k1 = T_DO \<or> k1 = T_LOOP)
      \<and> SkipSpaces c2 = (r, c3)
    \<longrightarrow> NextToken MAXTOKEN c0 =
     (case r of
        None \<Rightarrow> Inr (k1, c3\<lparr>linePtr := linePtr c2\<rparr>)
      | Some ch3 \<Rightarrow>
          if IdentifierCharP ch3 then
            (case IdentifierToken MAXTOKEN c3 ch3 of
               Inl e \<Rightarrow> Inl e
             | Inr (k2, c4) \<Rightarrow>
                 (case map_of spec_merge_table (k1, k2) of
                    Some k \<Rightarrow> Inr (k, c4)
                  | None \<Rightarrow> Inr (k1, c4\<lparr>linePtr := linePtr c2\<rparr>)))
          else Inr (k1, c3\<lparr>linePtr := linePtr c2\<rparr>)))
   \<and> (3 \<le> MAXTOKEN \<longrightarrow>
       (let t1 = GetToken MAXTOKEN (context_on_line ''END IF'');
            t2 = GetToken MAXTOKEN (context_of t1)
        in outcome t1 = Inr T_END_IF \<and> outcome t2 = Inr T_EOL)
       \<and> (let t1 = GetToken MAXTOKEN (context_on_line ''END FOO'');
            t2 = GetToken MAXTOKEN (context_of t1);
            t3 = GetToken MAXTOKEN (context_of t2)
        in outcome t1 = Inr T_END \<and> linePtr (context_of t1) = 3
           \<and> outcome t2 = Inr T_IDENTIFIER \<and> token (context_of t2) = ''FOO''
           \<and> outcome t3 = Inr T_EOL))"
proof -
  have trace: "(let t1 = GetToken MAXTOKEN (context_on_line ''END IF'');
            t2 = GetToken MAXTOKEN (context_of t1)
        in outcome t1 = Inr T_END_IF \<and> outcome t2 = Inr T_EOL)
       \<and> (let t1 = GetToken MAXTOKEN (context_on_line ''END FOO'');
            t2 = GetToken MAXTOKEN (context_of t1);
            t3 = GetToken MAXTOKEN (context_of t2)
        in outcome t1 = Inr T_END \<and> linePtr (context_of t1) = 3
           \<and> outcome t2 = Inr T_IDENTIFIER \<and> token (context_of t2) = ''FOO''
           \<and> outcome t3 = Inr T_EOL)" if le: "3 \<le> MAXTOKEN"
  proof -
    let ?a = "context_on_line ''END IF''"
    let ?a1 = "context_of (GetToken 3 ?a)"
    let ?b = "context_on_line ''END FOO''"
    let ?b1 = "context_of (GetToken 3 ?b)"
    let ?b2 = "context_of (GetToken 3 ?b1)"
    have t: "(let t1 = GetToken 3 (context_on_line ''END IF'');
            t2 = GetToken 3 (context_of t1)
        in outcome t1 = Inr T_END_IF \<and> outcome t2 = Inr T_EOL)
       \<and> (let t1 = GetToken 3 (context_on_line ''END FOO'');
            t2 = GetToken 3 (context_of t1);
            t3 = GetToken 3 (context_of t2)
        in outcome t1 = Inr T_END \<and> linePtr (context_of t1) = 3
           \<and> outcome t2 = Inr T_IDENTIFIER \<and> token (context_of t2) = ''FOO''
           \<and> outcome t3 = Inr T_EOL)"
      by code_simp
    then have o: "outcome (GetToken 3 ?a) = Inr T_END_IF" "outcome (GetToken 3 ?a1) = Inr T_EOL"
      "outcome (GetToken 3 ?b) = Inr T_END" "outcome (GetToken 3 ?b1) = Inr T_IDENTIFIER"
      "outcome (GetToken 3 ?b2) = Inr T_EOL"
      unfolding Let_def by blast+
    note e = GetToken_capacity [OF o(1) le] GetToken_capacity [OF o(2) le]
      GetToken_capacity [OF o(3) le] GetToken_capacity [OF o(4) le]
      GetToken_capacity [OF o(5) le]
    from t show ?thesis unfolding Let_def e .
  qed
  from trace NextToken_first_word [of c0 ch c1 MAXTOKEN k1 c2 r c3] show ?thesis
    by blast
qed

theorem C2_compound_keywords_witness:
  "(let c0 = context_on_line ''END FOO'';
        c1 = snd (SkipSpaces c0);
        c2 = context_of (IdentifierToken 32 (c1\<lparr>tokenOffset := linePtr c1\<rparr>) (CHR ''E''));
        c3 = snd (SkipSpaces c2);
        c4 = context_of (IdentifierToken 32 c3 (CHR ''F''))
    in SkipSpaces c0 = (Some (CHR ''E''), c1)
       \<and> IdentifierCharP (CHR ''E'') \<and> \<not> isdigit (CHR ''E'')
       \<and> IdentifierToken 32 (c1\<lparr>tokenOffset := linePtr c1\<rparr>) (CHR ''E'') = Inr (T_END, c2)
       \<and> SkipSpaces c2 = (Some (CHR ''F''), c3)
       \<and> NextToken 32 c0 = Inr (T_END, c4\<lparr>linePtr := linePtr c2\<rparr>)
       \<and> linePtr c2 = 3 \<and> linePtr c3 = 5 \<and> linePtr c4 = 7)
   \<and> (3::nat) \<le> 32
   \<and> outcome (GetToken 32 (context_on_line ''END IF'')) = Inr T_END_IF"
proof -
  define c0 where "c0 = context_on_line ''END FOO''"
  define c1 where "c1 = snd (SkipSpaces c0)"
  define c2 where
    "c2 = context_of (IdentifierToken 32 (c1\<lparr>tokenOffset := linePtr c1\<rparr>) (CHR ''E''))"
  define c3 where "c3 = snd (SkipSpaces c2)"
  define c4 where "c4 = context_of (IdentifierToken 32 c3 (CHR ''F''))"
  note defs = c0_def c1_def c2_def c3_def c4_def
  have "fst (SkipSpaces c0) = Some (CHR ''E'')" unfolding defs by code_simp
  then have h1: "SkipSpaces c0 = (Some (CHR ''E''), c1)"
    unfolding c1_def by (cases "SkipSpaces c0") simp
  have h2: "IdentifierCharP (CHR ''E'') \<and> \<not> isdigit (CHR ''E'')" by code_simp
  have "outcome (IdentifierToken 32 (c1\<lparr>tokenOffset := linePtr c1\<rparr>) (CHR ''E'')) = Inr T_END"
    unfolding defs by code_simp
  then have h3: "IdentifierToken 32 (c1\<lparr>tokenOffset := linePtr c1\<rparr>) (CHR ''E'') = Inr (T_END, c2)"
    unfolding c2_def by (rule result_eq)
  have "fst (SkipSpaces c2) = Some (CHR ''F'')" unfolding defs by code_simp
  then have h4: "SkipSpaces c2 = (Some (CHR ''F''), c3)"
    unfolding c3_def by (cases "SkipSpaces c2") simp
  have i: "IdentifierCharP (CHR ''F'')" by code_simp
  have "outcome (IdentifierToken 32 c3 (CHR ''F'')) = Inr T_IDENTIFIER"
    unfolding defs by code_simp
  then have h5: "IdentifierToken 32 c3 (CHR ''F'') = Inr (T_IDENTIFIER, c4)"
    unfolding c4_def by (rule result_eq)
  have m: "map_of spec_merge_table (T_END, T_IDENTIFIER) = None"
    by (simp add: spec_merge_table_def)
  have n: "(3::nat) \<le> 32" by simp
  note inst = C2_compound_keywords [of c0 "CHR ''E''" c1 32 T_END c2 "Some (CHR ''F'')" c3]
  have hyps: "SkipSpaces c0 = (Some (CHR ''E''), c1) \<and> IdentifierCharP (CHR ''E'')
      \<and> \<not> isdigit (CHR ''E'')
      \<and> IdentifierToken 32 (c1\<lparr>tokenOffset := linePtr c1\<rparr>) (CHR ''E'') = Inr (T_END, c2)
      \<and> (T_END = T_ELSE \<or> T_END = T_END \<or> T_END = T_DO \<or> T_END = T_LOOP)
      \<and> SkipSpaces c2 = (Some (CHR ''F''), c3)"
    using h1 h2 h3 h4 by (intro conjI) simp_all
  from inst [THEN conjunct1, THEN mp, OF hyps]
  have "NextToken 32 c0 =
     (case Some (CHR ''F'') of
        None \<Rightarrow> Inr (T_END, c3\<lparr>linePtr := linePtr c2\<rparr>)
      | Some ch3 \<Rightarrow>
          if IdentifierCharP ch3 then
            (case IdentifierToken 32 c3 ch3 of
               Inl e \<Rightarrow> Inl e
             | Inr (k2, c4) \<Rightarrow>
                 (case map_of spec_merge_table (T_END, k2) of
                    Some k \<Rightarrow> Inr (k, c4)
                  | None \<Rightarrow> Inr (T_END, c4\<lparr>linePtr := linePtr c2\<rparr>)))
          else Inr (T_END, c3\<lparr>linePtr := linePtr c2\<rparr>))" .
  then have r: "NextToken 32 c0 = Inr (T_END, c4\<lparr>linePtr := linePtr c2\<rparr>)"
    by (simp add: i h5 m)
  have p: "linePtr c2 = 3 \<and> linePtr c3 = 5 \<and> linePtr c4 = 7" unfolding defs by code_simp
  from inst [THEN conjunct2, THEN mp, OF n, THEN conjunct1]
  have "let t1 = GetToken 32 (context_on_line ''END IF'');
            t2 = GetToken 32 (context_of t1)
        in outcome t1 = Inr T_END_IF \<and> outcome t2 = Inr T_EOL" .
  then have q: "outcome (GetToken 32 (context_on_line ''END IF'')) = Inr T_END_IF"
    by (simp add: Let_def)
  from h1 h2 h3 h4 r p n q show ?thesis
    unfolding defs Let_def by blast
qed

subsection \<open>Numbers\<close>

















subsection \<open>String literals\<close>











end
